theory Spec2Isabelle
  imports Complex_Main "HOL-Library.AList" "HOL-Library.Sublist"
begin

section \<open>Python values, dictionaries and exceptions\<close>

text \<open>
  The constructor arguments of \<^verbatim>\<open>StochasticAI\<close> and the JSON bodies of the HTTP
  responses are untyped Python values (\<^verbatim>\<open>Any\<close>). A float is represented by the
  rational number it denotes: the program only stores and forwards floats (and sleeps
  for \<^verbatim>\<open>0.5\<close> seconds), it never computes with them. A dictionary with string keys
  is an association list in insertion order; a Python dictionary holds each key once.
  A string is a list of characters, one \<open>char\<close> for each character of the Python
  string; the program compares, concatenates and indexes strings and never looks at a
  character's code.

  The exceptions are Python's, by name. \<open>HTTPError\<close>, \<open>JSONDecodeError\<close> and
  \<open>ConnectionError\<close> come from the requests library, \<open>ValidationError\<close> from pydantic's
  field validation; \<open>ConfigurationError\<close> is the spec's name for a missing credential,
  raised by a helper whose code is not among the sources.
\<close>

datatype pyval =
    PNone
  | PBool bool
  | PInt int
  | PFloat rat
  | PStr string
  | PList "pyval list"
  | PDict "(string \<times> pyval) list"

type_synonym pydict = "(string \<times> pyval) list"

datatype error =
    ValueError string
  | TypeError
  | KeyError pyval
  | IndexError
  | AttributeError
  | HTTPError nat
  | JSONDecodeError
  | ConnectionError
  | ValidationError string
  | ConfigurationError string

text \<open>\<^verbatim>\<open>x[k]\<close> for a string key \<open>k\<close>: only a dictionary can be subscripted by a string.\<close>

fun py_getitem :: "pyval \<Rightarrow> string \<Rightarrow> error + pyval" where
  "py_getitem (PDict d) k = (case map_of d k of None \<Rightarrow> Inl (KeyError (PStr k)) | Some v \<Rightarrow> Inr v)"
| "py_getitem _ k = Inl TypeError"

text \<open>\<^verbatim>\<open>x.get(k)\<close>: \<^verbatim>\<open>None\<close> for a missing key; only a dictionary has the method.\<close>

fun py_get :: "pyval \<Rightarrow> string \<Rightarrow> error + pyval" where
  "py_get (PDict d) k = (case map_of d k of None \<Rightarrow> Inr PNone | Some v \<Rightarrow> Inr v)"
| "py_get _ k = Inl AttributeError"

text \<open>
  \<^verbatim>\<open>x[0]\<close>: the first element of a list, the first character of a string, the entry
  under the integer key 0 of a dictionary (a dictionary with string keys has none).
\<close>

fun py_first :: "pyval \<Rightarrow> error + pyval" where
  "py_first (PList []) = Inl IndexError"
| "py_first (PList (v # vs)) = Inr v"
| "py_first (PStr []) = Inl IndexError"
| "py_first (PStr (c # cs)) = Inr (PStr [c])"
| "py_first (PDict d) = Inl (KeyError (PInt 0))"
| "py_first _ = Inl TypeError"

text \<open>
  \<^verbatim>\<open>k in x\<close> for a string \<open>k\<close>: key membership in a dictionary, element membership in
  a list, substring test in a string; the other values are not containers.
\<close>

fun py_in :: "string \<Rightarrow> pyval \<Rightarrow> error + bool" where
  "py_in k (PDict d) = Inr (k \<in> fst ` set d)"
| "py_in k (PList vs) = Inr (PStr k \<in> set vs)"
| "py_in k (PStr s) = Inr (sublist k s)"
| "py_in k _ = Inl TypeError"

text \<open>\<^verbatim>\<open>x[k] = v\<close> for a string key: a dictionary keeps the position of a key it has
  and appends a new one; nothing else takes a string subscript.\<close>

fun py_setitem :: "pyval \<Rightarrow> string \<Rightarrow> pyval \<Rightarrow> error + pyval" where
  "py_setitem (PDict d) k v = Inr (PDict (AList.update k v d))"
| "py_setitem _ k v = Inl TypeError"

text \<open>\<^verbatim>\<open>d.pop(k)\<close>: the value and the dictionary without the key.\<close>

definition dict_pop :: "pydict \<Rightarrow> string \<Rightarrow> error + pyval \<times> pydict" where
  "dict_pop d k =
     (case map_of d k of
        None \<Rightarrow> Inl (KeyError (PStr k))
      | Some v \<Rightarrow> Inr (v, AList.delete k d))"

section \<open>Construction: \<^verbatim>\<open>build_extra\<close> and \<^verbatim>\<open>validate_environment\<close>\<close>

text \<open>
  The fields the class annotates itself (lines 38, 55 and 59 of
  \<^verbatim>\<open>stochasticai.py\<close>). The set \<^verbatim>\<open>cls.__fields__\<close> also holds whatever pydantic
  registers for the un-annotated class attributes and for the base class \<^verbatim>\<open>LLM\<close>;
  neither is decided by this file, so those names are the parameter \<open>others\<close>.
\<close>

definition own_fields :: "string list" where
  "own_fields = [''model_id'', ''model_kwargs'', ''stochasticai_api_key'']"

definition all_required_field_names :: "string set \<Rightarrow> string set" where
  "all_required_field_names others = set own_fields \<union> others"

text \<open>The text handed to \<^verbatim>\<open>logger.warning\<close> (a two-line f-string).\<close>

definition warning :: "string \<Rightarrow> string" where
  "warning field_name =
     field_name @ '' was transfered to model_kwargs.'' @ [CHR 0x0A] @
     replicate 20 (CHR '' '') @
     ''Please confirm that '' @ field_name @ '' is what you intended.''"

text \<open>
  The body of the loop \<^verbatim>\<open>for field_name in list(values)\<close>: the keys are a snapshot,
  the state is the dictionary \<open>values\<close>, the object \<open>extra\<close> and the warnings logged so
  far. The right-hand side of \<^verbatim>\<open>extra[field_name] = values.pop(field_name)\<close> is
  evaluated before the store.
\<close>

fun build_extra_loop ::
  "string set \<Rightarrow> string list \<Rightarrow> pydict \<Rightarrow> pyval \<Rightarrow> string list
     \<Rightarrow> string list \<times> (error + pydict \<times> pyval)" where
  "build_extra_loop F [] values extra logged = (logged, Inr (values, extra))"
| "build_extra_loop F (field_name # rest) values extra logged =
     (if field_name \<notin> F then
        (case py_in field_name extra of
           Inl e \<Rightarrow> (logged, Inl e)
         | Inr True \<Rightarrow> (logged, Inl (ValueError (''Found '' @ field_name @ '' supplied twice.'')))
         | Inr False \<Rightarrow>
             (case dict_pop values field_name of
                Inl e \<Rightarrow> (logged @ [warning field_name], Inl e)
              | Inr (v, values') \<Rightarrow>
                  (case py_setitem extra field_name v of
                     Inl e \<Rightarrow> (logged @ [warning field_name], Inl e)
                   | Inr extra' \<Rightarrow>
                       build_extra_loop F rest values' extra' (logged @ [warning field_name]))))
      else build_extra_loop F rest values extra logged)"

text \<open>\<^verbatim>\<open>values.get("model_kwargs", {})\<close>\<close>

definition initial_extra :: "pydict \<Rightarrow> pyval" where
  "initial_extra values =
     (case map_of values ''model_kwargs'' of None \<Rightarrow> PDict [] | Some kw \<Rightarrow> kw)"

text \<open>The pre-validator: the warnings it logs, and the exception or the new dictionary.\<close>

definition build_extra :: "string set \<Rightarrow> pydict \<Rightarrow> string list \<times> (error + pydict)" where
  "build_extra others values =
     (case build_extra_loop (all_required_field_names others) (map fst values) values
             (initial_extra values) [] of
        (logged, Inl e) \<Rightarrow> (logged, Inl e)
      | (logged, Inr (values', extra)) \<Rightarrow> (logged, Inr (AList.update ''model_kwargs'' extra values')))"

text \<open>The validated fields of an instance, with the types the class declares.\<close>

record config =
  model_id :: string
  model_kwargs :: pydict
  stochasticai_api_key :: "string option"

text \<open>
  Between the two root validators pydantic validates each field against its
  annotation. That step is pydantic's, not this file's; it is modelled for the three
  annotated fields only and strictly: \<^verbatim>\<open>model_id: str\<close> is required,
  \<^verbatim>\<open>model_kwargs: Dict[str, Any]\<close> is the dictionary \<^verbatim>\<open>build_extra\<close> stored,
  \<^verbatim>\<open>stochasticai_api_key: Optional[str]\<close> defaults to \<^verbatim>\<open>None\<close>. A value of another
  type is rejected here (pydantic would first try to coerce it), so the theorems below
  rely on this step only for inputs whose fields already have the declared types.
\<close>

definition validate_fields :: "pydict \<Rightarrow> error + config" where
  "validate_fields values =
     (case map_of values ''model_id'' of
        Some (PStr m) \<Rightarrow>
          (case map_of values ''model_kwargs'' of
             Some (PDict kw) \<Rightarrow>
               (case map_of values ''stochasticai_api_key'' of
                  None \<Rightarrow> Inr \<lparr>model_id = m, model_kwargs = kw, stochasticai_api_key = None\<rparr>
                | Some PNone \<Rightarrow> Inr \<lparr>model_id = m, model_kwargs = kw, stochasticai_api_key = None\<rparr>
                | Some (PStr k) \<Rightarrow> Inr \<lparr>model_id = m, model_kwargs = kw, stochasticai_api_key = Some k\<rparr>
                | Some _ \<Rightarrow> Inl (ValidationError ''stochasticai_api_key''))
           | _ \<Rightarrow> Inl (ValidationError ''model_kwargs''))
      | _ \<Rightarrow> Inl (ValidationError ''model_id''))"

text \<open>
  Modelled from the spec: \<^verbatim>\<open>get_from_dict_or_env\<close> of \<^verbatim>\<open>langchain.utils\<close> is not
  among the sources. The spec gives its resolution order: the explicitly supplied
  value, then the named environment variable, then a configuration error. The first
  argument is the process environment, the second the field read from \<open>values\<close>.
\<close>

definition get_from_dict_or_env ::
  "(string \<rightharpoonup> string) \<Rightarrow> string option \<Rightarrow> string \<Rightarrow> string \<Rightarrow> error + string" where
  "get_from_dict_or_env environ supplied key env_key =
     (case supplied of
        Some v \<Rightarrow> Inr v
      | None \<Rightarrow>
          (case environ env_key of
             Some v \<Rightarrow> Inr v
           | None \<Rightarrow> Inl (ConfigurationError key)))"

text \<open>
  The post-validator. Its \<open>values\<close> are the validated fields, so the dictionary entry
  \<^verbatim>\<open>values["stochasticai_api_key"]\<close> is the record field.
\<close>

definition validate_environment :: "(string \<rightharpoonup> string) \<Rightarrow> config \<Rightarrow> error + config" where
  "validate_environment environ values =
     (case get_from_dict_or_env environ (stochasticai_api_key values)
             ''stochasticai_api_key'' ''STOCHASTICAI_API_KEY'' of
        Inl e \<Rightarrow> Inl e
      | Inr k \<Rightarrow> Inr (values\<lparr>stochasticai_api_key := Some k\<rparr>))"

text \<open>
  \<^verbatim>\<open>StochasticAI(**values)\<close>: the pre-validator, the fields, the post-validator. An
  exception of a validator reaches the caller inside pydantic's validation error; the
  model returns the validator's own exception. An exception of the pre-validator ends
  the construction at once; after a field error pydantic still runs the post-validator
  and raises all the same, so the model stops at the field error. No step performs a
  network call: the result holds the warnings logged and nothing else.
\<close>

definition construct ::
  "(string \<rightharpoonup> string) \<Rightarrow> string set \<Rightarrow> pydict \<Rightarrow> string list \<times> (error + config)" where
  "construct environ others values =
     (case build_extra others values of
        (logged, Inl e) \<Rightarrow> (logged, Inl e)
      | (logged, Inr values') \<Rightarrow>
          (case validate_fields values' of
             Inl e \<Rightarrow> (logged, Inl e)
           | Inr validated \<Rightarrow>
               (case validate_environment environ validated of
                  Inl e \<Rightarrow> (logged, Inl e)
                | Inr obj \<Rightarrow> (logged, Inr obj))))"

section \<open>The call: submit, then poll\<close>

text \<open>
  The observable effects of a call, in order: the requests handed to
  \<^verbatim>\<open>requests.post\<close> and \<^verbatim>\<open>requests.get\<close> (URL, JSON body, headers) and the
  durations, in seconds, handed to \<^verbatim>\<open>time.sleep\<close>.
\<close>

datatype event =
    Post string pyval "(string \<times> string) list"
  | Get pyval "(string \<times> string) list"
  | Sleep rat

text \<open>
  What the remote side answers: the status code, and the body as \<^verbatim>\<open>.json()\<close> parses
  it (\<open>None\<close> for a body that is not JSON). A request can also raise without an
  answer. The server is a parameter of the call: one reply to the POST and the
  replies to the first, second, ... GET.
\<close>

record response =
  status_code :: nat
  json_body :: "pyval option"

type_synonym reply = "error + response"

text \<open>\<^verbatim>\<open>Response.raise_for_status\<close> of the requests library raises for the client and
  server error classes, 400 to 599, and for no other status.\<close>

definition raise_for_status :: "response \<Rightarrow> error + unit" where
  "raise_for_status r =
     (if 400 \<le> status_code r \<and> status_code r < 600
      then Inl (HTTPError (status_code r)) else Inr ())"

definition response_json :: "response \<Rightarrow> error + pyval" where
  "response_json r = (case json_body r of None \<Rightarrow> Inl JSONDecodeError | Some j \<Rightarrow> Inr j)"

text \<open>The headers of both requests; the f-string prints a missing key as \<^verbatim>\<open>None\<close>.\<close>

definition headers :: "config \<Rightarrow> (string \<times> string) list" where
  "headers self =
     [(''apiKey'', (case stochasticai_api_key self of None \<Rightarrow> ''None'' | Some k \<Rightarrow> k)),
      (''Accept'', ''application/json''),
      (''Content-Type'', ''application/json'')]"

text \<open>The request of lines 116 to 125.\<close>

definition post_request :: "config \<Rightarrow> string \<Rightarrow> event" where
  "post_request self prompt =
     (let params = (if model_kwargs self \<noteq> [] then model_kwargs self else [])
      in Post (model_id self)
           (PDict [(''prompt'', PStr prompt), (''params'', PDict params)])
           (headers self))"

text \<open>The expression \<^verbatim>\<open>response_post_json["data"]["responseUrl"]\<close> of line 131.\<close>

definition poll_url :: "pyval \<Rightarrow> error + pyval" where
  "poll_url response_post_json =
     (case py_getitem response_post_json ''data'' of
        Inl e \<Rightarrow> Inl e
      | Inr d \<Rightarrow> py_getitem d ''responseUrl'')"

text \<open>
  Lines 138 to 140, on the reply to one GET: \<^verbatim>\<open>raise_for_status\<close>, the \<^verbatim>\<open>data\<close>
  entry of the parsed body, and its \<^verbatim>\<open>completion\<close> (\<^verbatim>\<open>None\<close> when the key is absent
  or the JSON value is null).
\<close>

definition read_completion :: "reply \<Rightarrow> error + pyval" where
  "read_completion reply =
     (case reply of
        Inl e \<Rightarrow> Inl e
      | Inr response_get \<Rightarrow>
     (case raise_for_status response_get of
        Inl e \<Rightarrow> Inl e
      | Inr _ \<Rightarrow>
     (case response_json response_get of
        Inl e \<Rightarrow> Inl e
      | Inr j \<Rightarrow>
     (case py_getitem j ''data'' of
        Inl e \<Rightarrow> Inl e
      | Inr response_get_json \<Rightarrow> py_get response_get_json ''completion''))))"

text \<open>
  One pass through the body of the \<^verbatim>\<open>while\<close> loop (lines 130 to 142): the events it
  adds, and the exception raised or the value of \<^verbatim>\<open>text\<close>. The URL expression is
  evaluated before \<^verbatim>\<open>requests.get\<close> is entered; the sleep is the last statement of the
  body, whatever \<^verbatim>\<open>text\<close> is.
\<close>

definition poll_once :: "config \<Rightarrow> pyval \<Rightarrow> reply \<Rightarrow> event list \<times> (error + pyval)" where
  "poll_once self response_post_json reply =
     (case poll_url response_post_json of
        Inl e \<Rightarrow> ([], Inl e)
      | Inr url \<Rightarrow>
     (case read_completion reply of
        Inl e \<Rightarrow> ([Get url (headers self)], Inl e)
      | Inr text \<Rightarrow> ([Get url (headers self), Sleep (1 / 2)], Inr text)))"

text \<open>
  The loop \<^verbatim>\<open>while not completed\<close>. It has no bound, so it is a partial function:
  \<open>None\<close> is a loop that never exits. \<open>gets n\<close> is the reply to GET number \<open>n\<close>.
\<close>

partial_function (option) poll_loop ::
  "config \<Rightarrow> pyval \<Rightarrow> (nat \<Rightarrow> reply) \<Rightarrow> nat \<Rightarrow> event list
     \<Rightarrow> (event list \<times> (error + pyval)) option" where
  "poll_loop self response_post_json gets n trace =
     (case poll_once self response_post_json (gets n) of
        (evs, Inl e) \<Rightarrow> Some (trace @ evs, Inl e)
      | (evs, Inr text) \<Rightarrow>
          (if text \<noteq> PNone then Some (trace @ evs, Inr text)
           else poll_loop self response_post_json gets (Suc n) (trace @ evs)))"

declare poll_loop.simps [code]

text \<open>
  Modelled from the spec: \<^verbatim>\<open>enforce_stop_tokens\<close> of \<^verbatim>\<open>langchain.llms.utils\<close> is not
  among the sources. The spec's words: the text up to, not including, the first
  occurrence of any stop sequence.
\<close>

fun enforce_stop_tokens :: "string \<Rightarrow> string list \<Rightarrow> string" where
  "enforce_stop_tokens [] stop = []"
| "enforce_stop_tokens (c # cs) stop =
     (if \<exists>s \<in> set stop. prefix s (c # cs) then [] else c # enforce_stop_tokens cs stop)"

text \<open>
  \<^verbatim>\<open>_call\<close> (an Isabelle name cannot start with an underscore): the trace of
  effects and the exception or the returned value, or \<open>None\<close> when the loop never
  exits. \<^verbatim>\<open>enforce_stop_tokens\<close> takes a string; another value is a type error.
\<close>

definition call ::
  "config \<Rightarrow> reply \<Rightarrow> (nat \<Rightarrow> reply) \<Rightarrow> string \<Rightarrow> string list option
     \<Rightarrow> (event list \<times> (error + pyval)) option" where
  "call self post_reply gets prompt stop =
     (case post_reply of
        Inl e \<Rightarrow> Some ([post_request self prompt], Inl e)
      | Inr response_post \<Rightarrow>
     (case raise_for_status response_post of
        Inl e \<Rightarrow> Some ([post_request self prompt], Inl e)
      | Inr _ \<Rightarrow>
     (case response_json response_post of
        Inl e \<Rightarrow> Some ([post_request self prompt], Inl e)
      | Inr response_post_json \<Rightarrow>
     (case poll_loop self response_post_json gets 0 [post_request self prompt] of
        None \<Rightarrow> None
      | Some (trace, Inl e) \<Rightarrow> Some (trace, Inl e)
      | Some (trace, Inr text) \<Rightarrow>
     (case py_first text of
        Inl e \<Rightarrow> Some (trace, Inl e)
      | Inr text0 \<Rightarrow>
     (case stop of
        None \<Rightarrow> Some (trace, Inr text0)
      | Some st \<Rightarrow>
     (case text0 of
        PStr s \<Rightarrow> Some (trace, Inr (PStr (enforce_stop_tokens s st)))
      | _ \<Rightarrow> Some (trace, Inl TypeError))))))))"

text \<open>
  A call that never returns still has effects. To observe them, the same loop run for
  at most \<open>fuel\<close> passes: the trace so far, and the outcome if the loop has ended
  within them (\<open>None\<close> while it is still polling).
\<close>

fun poll_upto ::
  "nat \<Rightarrow> config \<Rightarrow> pyval \<Rightarrow> (nat \<Rightarrow> reply) \<Rightarrow> nat \<Rightarrow> event list
     \<Rightarrow> event list \<times> (error + pyval) option" where
  "poll_upto 0 self response_post_json gets n trace = (trace, None)"
| "poll_upto (Suc fuel) self response_post_json gets n trace =
     (case poll_once self response_post_json (gets n) of
        (evs, Inl e) \<Rightarrow> (trace @ evs, Some (Inl e))
      | (evs, Inr text) \<Rightarrow>
          (if text \<noteq> PNone then (trace @ evs, Some (Inr text))
           else poll_upto fuel self response_post_json gets (Suc n) (trace @ evs)))"

text \<open>
  \<^verbatim>\<open>_call\<close> with the loop cut after \<open>fuel\<close> passes: the statements of \<open>call\<close>, with
  \<open>poll_upto\<close> for \<open>poll_loop\<close>. The events up to the POST need no fuel.
\<close>

definition call_upto ::
  "nat \<Rightarrow> config \<Rightarrow> reply \<Rightarrow> (nat \<Rightarrow> reply) \<Rightarrow> string \<Rightarrow> string list option
     \<Rightarrow> event list \<times> (error + pyval) option" where
  "call_upto fuel self post_reply gets prompt stop =
     (case post_reply of
        Inl e \<Rightarrow> ([post_request self prompt], Some (Inl e))
      | Inr response_post \<Rightarrow>
     (case raise_for_status response_post of
        Inl e \<Rightarrow> ([post_request self prompt], Some (Inl e))
      | Inr _ \<Rightarrow>
     (case response_json response_post of
        Inl e \<Rightarrow> ([post_request self prompt], Some (Inl e))
      | Inr response_post_json \<Rightarrow>
     (case poll_upto fuel self response_post_json gets 0 [post_request self prompt] of
        (trace, None) \<Rightarrow> (trace, None)
      | (trace, Some (Inl e)) \<Rightarrow> (trace, Some (Inl e))
      | (trace, Some (Inr text)) \<Rightarrow>
     (case py_first text of
        Inl e \<Rightarrow> (trace, Some (Inl e))
      | Inr text0 \<Rightarrow>
     (case stop of
        None \<Rightarrow> (trace, Some (Inr text0))
      | Some st \<Rightarrow>
     (case text0 of
        PStr s \<Rightarrow> (trace, Some (Inr (PStr (enforce_stop_tokens s st))))
      | _ \<Rightarrow> (trace, Some (Inl TypeError)))))))))"

section \<open>Observations on a trace and on a response\<close>

text \<open>The URLs of the GET requests of a trace, and the durations it slept, in order.\<close>

fun get_urls :: "event list \<Rightarrow> pyval list" where
  "get_urls [] = []"
| "get_urls (Get url hs # es) = url # get_urls es"
| "get_urls (_ # es) = get_urls es"

fun sleeps :: "event list \<Rightarrow> rat list" where
  "sleeps [] = []"
| "sleeps (Sleep d # es) = d # sleeps es"
| "sleeps (_ # es) = sleeps es"

text \<open>The events of \<open>m\<close> passes through the loop body that read no completion.\<close>

definition polls :: "config \<Rightarrow> pyval \<Rightarrow> nat \<Rightarrow> event list" where
  "polls self url m = concat (replicate m [Get url (headers self), Sleep (1 / 2)])"

text \<open>A response body that is a JSON object whose \<^verbatim>\<open>data\<close> entry is an object with
  a \<^verbatim>\<open>responseUrl\<close> entry.\<close>

definition has_response_url :: "response \<Rightarrow> bool" where
  "has_response_url r =
     (case json_body r of
        Some (PDict body) \<Rightarrow>
          (case map_of body ''data'' of
             Some (PDict d) \<Rightarrow> map_of d ''responseUrl'' \<noteq> None
           | _ \<Rightarrow> False)
      | _ \<Rightarrow> False)"

section \<open>Example inputs\<close>

text \<open>The data of the spec's test scenarios: a client, and a response with a given
  status whose body is the JSON object \<^verbatim>\<open>{"data": d}\<close>.\<close>

definition example_config :: config where
  "example_config =
     \<lparr>model_id = ''https://api.stochastic.ai/v1/modelApi/submit/flan-t5'',
      model_kwargs = [], stochasticai_api_key = Some ''secret''\<rparr>"

definition data_response :: "nat \<Rightarrow> pyval \<Rightarrow> response" where
  "data_response status d = \<lparr>status_code = status, json_body = Some (PDict [(''data'', d)])\<rparr>"

section \<open>The polling loop\<close>

lemma poll_loop_no_url:
  "poll_url pj = Inl e \<Longrightarrow> poll_loop self pj gets n tr = Some (tr, Inl e)"
  by (subst poll_loop.simps) (simp add: poll_once_def)

lemma poll_loop_fail:
  "poll_url pj = Inr url \<Longrightarrow> read_completion (gets n) = Inl e \<Longrightarrow>
   poll_loop self pj gets n tr = Some (tr @ [Get url (headers self)], Inl e)"
  by (subst poll_loop.simps) (simp add: poll_once_def)

lemma poll_loop_done:
  "poll_url pj = Inr url \<Longrightarrow> read_completion (gets n) = Inr text \<Longrightarrow> text \<noteq> PNone \<Longrightarrow>
   poll_loop self pj gets n tr = Some (tr @ [Get url (headers self), Sleep (1 / 2)], Inr text)"
  by (subst poll_loop.simps) (simp add: poll_once_def)

lemma poll_loop_pending:
  "poll_url pj = Inr url \<Longrightarrow> read_completion (gets n) = Inr PNone \<Longrightarrow>
   poll_loop self pj gets n tr =
     poll_loop self pj gets (Suc n) (tr @ [Get url (headers self), Sleep (1 / 2)])"
  by (subst poll_loop.simps) (simp add: poll_once_def)

lemma polls_Suc: "polls self url (Suc m) = [Get url (headers self), Sleep (1 / 2)] @ polls self url m"
  by (simp add: polls_def)

lemma poll_loop_skip:
  "poll_url pj = Inr url \<Longrightarrow> (\<forall>k<m. read_completion (gets (n + k)) = Inr PNone) \<Longrightarrow>
   poll_loop self pj gets n tr = poll_loop self pj gets (n + m) (tr @ polls self url m)"
proof (induction m arbitrary: n tr)
  case 0
  then show ?case by (simp add: polls_def)
next
  case (Suc m)
  have first: "read_completion (gets n) = Inr PNone"
    using Suc.prems(2) by (metis add.right_neutral zero_less_Suc)
  have rest: "\<forall>k<m. read_completion (gets (Suc n + k)) = Inr PNone"
    using Suc.prems(2) by (metis Suc_less_eq add_Suc_shift)
  have "poll_loop self pj gets n tr =
          poll_loop self pj gets (Suc n) (tr @ [Get url (headers self), Sleep (1 / 2)])"
    using Suc.prems(1) first by (rule poll_loop_pending)
  also have "\<dots> = poll_loop self pj gets (Suc n + m)
                     ((tr @ [Get url (headers self), Sleep (1 / 2)]) @ polls self url m)"
    using Suc.prems(1) rest by (rule Suc.IH)
  finally show ?case by (simp add: polls_Suc)
qed

lemma poll_loop_forever:
  assumes "poll_loop self pj gets n tr = Some y"
  shows "\<exists>k\<ge>n. read_completion (gets k) \<noteq> Inr PNone \<or> (\<exists>e. poll_url pj = Inl e)"
proof (rule poll_loop.raw_induct
    [where P = "\<lambda>self pj gets n tr y. \<exists>k\<ge>n. read_completion (gets k) \<noteq> Inr PNone \<or> (\<exists>e. poll_url pj = Inl e)",
     OF _ assms])
  fix f :: "config \<Rightarrow> pyval \<Rightarrow> (nat \<Rightarrow> reply) \<Rightarrow> nat \<Rightarrow> event list \<Rightarrow> (event list \<times> (error + pyval)) option"
  fix self pj gets n tr y
  assume IH: "\<And>self pj gets n tr y. f self pj gets n tr = Some y \<Longrightarrow>
    \<exists>k\<ge>n. read_completion (gets k) \<noteq> Inr PNone \<or> (\<exists>e. poll_url pj = Inl e)"
  assume body: "(case poll_once self pj (gets n) of
      (evs, Inl e) \<Rightarrow> Some (tr @ evs, Inl e)
      | (evs, Inr text) \<Rightarrow>
          if text \<noteq> PNone then Some (tr @ evs, Inr text)
          else f self pj gets (Suc n) (tr @ evs)) = Some y"
  show "\<exists>k\<ge>n. read_completion (gets k) \<noteq> Inr PNone \<or> (\<exists>e. poll_url pj = Inl e)"
  proof (cases "read_completion (gets n) = Inr PNone \<and> (\<exists>url. poll_url pj = Inr url)")
    case True
    then have "f self pj gets (Suc n) (tr @ fst (poll_once self pj (gets n))) = Some y"
      using body by (auto simp: poll_once_def)
    then obtain k where "k \<ge> Suc n" "read_completion (gets k) \<noteq> Inr PNone \<or> (\<exists>e. poll_url pj = Inl e)"
      using IH by blast
    then show ?thesis by (metis Suc_leD)
  next
    case False
    then show ?thesis by (cases "poll_url pj") auto
  qed
qed

lemma poll_loop_completes:
  assumes "poll_url pj = Inr url"
    and "\<forall>k<n. read_completion (gets k) = Inr PNone"
    and "read_completion (gets n) = Inr text" and "text \<noteq> PNone"
  shows "poll_loop self pj gets 0 tr =
           Some (tr @ polls self url n @ [Get url (headers self), Sleep (1 / 2)], Inr text)"
proof -
  have "poll_loop self pj gets 0 tr = poll_loop self pj gets (0 + n) (tr @ polls self url n)"
    using assms(1,2) by (intro poll_loop_skip) simp_all
  also have "\<dots> = Some ((tr @ polls self url n) @ [Get url (headers self), Sleep (1 / 2)], Inr text)"
    using assms(1,3,4) by (simp add: poll_loop_done)
  finally show ?thesis by simp
qed

lemma poll_loop_fails:
  assumes "poll_url pj = Inr url"
    and "\<forall>k<n. read_completion (gets k) = Inr PNone"
    and "read_completion (gets n) = Inl e"
  shows "poll_loop self pj gets 0 tr =
           Some (tr @ polls self url n @ [Get url (headers self)], Inl e)"
proof -
  have "poll_loop self pj gets 0 tr = poll_loop self pj gets (0 + n) (tr @ polls self url n)"
    using assms(1,2) by (intro poll_loop_skip) simp_all
  also have "\<dots> = Some ((tr @ polls self url n) @ [Get url (headers self)], Inl e)"
    using assms(1,3) by (simp add: poll_loop_fail)
  finally show ?thesis by simp
qed

lemma polls_2: "polls self url 2 = [Get url (headers self), Sleep (1 / 2), Get url (headers self), Sleep (1 / 2)]"
  by (simp add: polls_def numeral_2_eq_2)

section \<open>Helper facts for the call\<close>

lemma enforce_stop_tokens_first_occurrence:
  "\<exists>k\<le>length raw. enforce_stop_tokens raw stop = take k raw
      \<and> (\<forall>j<k. \<forall>s\<in>set stop. \<not> prefix s (drop j raw))
      \<and> (k < length raw \<longrightarrow> (\<exists>s\<in>set stop. prefix s (drop k raw)))"
proof (induction raw)
  case Nil
  then show ?case by simp
next
  case (Cons c cs)
  show ?case
  proof (cases "\<exists>s\<in>set stop. prefix s (c # cs)")
    case True
    then show ?thesis by (intro exI [of _ 0]) simp
  next
    case False
    from Cons.IH obtain k where k: "k \<le> length cs" "enforce_stop_tokens cs stop = take k cs"
      "\<forall>j<k. \<forall>s\<in>set stop. \<not> prefix s (drop j cs)"
      "k < length cs \<longrightarrow> (\<exists>s\<in>set stop. prefix s (drop k cs))"
      by blast
    have "\<forall>j<Suc k. \<forall>s\<in>set stop. \<not> prefix s (drop j (c # cs))"
    proof (intro allI impI)
      fix j assume "j < Suc k"
      then show "\<forall>s\<in>set stop. \<not> prefix s (drop j (c # cs))"
        using False k(3) by (cases j) auto
    qed
    with False k show ?thesis by (intro exI [of _ "Suc k"]) simp
  qed
qed

lemma poll_url_error:
  assumes "\<not> has_response_url r" and "json_body r = Some j"
  shows "\<exists>e\<in>{TypeError, KeyError (PStr ''data''), KeyError (PStr ''responseUrl'')}. poll_url j = Inl e"
  using assms
  by (auto simp: has_response_url_def poll_url_def split: pyval.splits option.splits)

lemma call_None_iff:
  assumes "post_reply = Inr response_post"
    and "raise_for_status response_post = Inr ()"
    and "response_json response_post = Inr response_post_json"
  shows "(call self post_reply gets prompt stop = None) =
         (poll_loop self response_post_json gets 0 [post_request self prompt] = None)"
  using assms
  by (simp add: call_def split: option.splits sum.splits prod.splits pyval.splits)

lemma poll_loop_terminates:
  assumes "poll_url pj = Inr url" and "read_completion (gets k) \<noteq> Inr PNone"
  shows "poll_loop self pj gets 0 tr \<noteq> None"
proof -
  from assms(2) obtain n
    where pend: "\<forall>j<n. read_completion (gets j) = Inr PNone"
      and stop: "read_completion (gets n) \<noteq> Inr PNone"
    using exists_least_iff [of "\<lambda>n. read_completion (gets n) \<noteq> Inr PNone"] by blast
  show ?thesis
  proof (cases "read_completion (gets n)")
    case (Inl e)
    have "poll_loop self pj gets 0 tr = Some (tr @ polls self url n @ [Get url (headers self)], Inl e)"
      using assms(1) pend Inl by (rule poll_loop_fails)
    then show ?thesis by simp
  next
    case (Inr t)
    with stop have "t \<noteq> PNone" by simp
    have "poll_loop self pj gets 0 tr =
            Some (tr @ polls self url n @ [Get url (headers self), Sleep (1 / 2)], Inr t)"
      using assms(1) pend Inr \<open>t \<noteq> PNone\<close> by (rule poll_loop_completes)
    then show ?thesis by simp
  qed
qed

section \<open>Helper facts for the construction\<close>

lemma dict_pop_present:
  assumes "k \<in> fst ` set vals"
  shows "\<exists>v. map_of vals k = Some v \<and> dict_pop vals k = Inr (v, AList.delete k vals)"
proof -
  from assms obtain v where "map_of vals k = Some v"
    by (metis domD dom_map_of_conv_image_fst)
  then show ?thesis by (simp add: dict_pop_def)
qed

lemma keys_delete: "fst ` set (AList.delete k d) = fst ` set d - {k}"
  by (induction d) auto

lemma loop_collision:
  assumes "distinct ks" and "set ks \<subseteq> fst ` set vals"
    and "find (\<lambda>k. k \<notin> F \<and> k \<in> fst ` set kw) ks = Some g"
  shows "\<exists>logged'. build_extra_loop F ks vals (PDict kw) logged =
           (logged', Inl (ValueError (''Found '' @ g @ '' supplied twice.'')))"
  using assms
proof (induction ks arbitrary: vals kw logged)
  case Nil
  then show ?case by simp
next
  case (Cons k ks)
  show ?case
  proof (cases "k \<in> F")
    case True
    with Cons.prems have "find (\<lambda>k. k \<notin> F \<and> k \<in> fst ` set kw) ks = Some g"
      and "distinct ks" and "set ks \<subseteq> fst ` set vals" by auto
    from Cons.IH [OF this(2,3,1)] True show ?thesis by simp
  next
    case notF: False
    show ?thesis
    proof (cases "k \<in> fst ` set kw")
      case True
      with notF Cons.prems(3) have "g = k" by simp
      with notF True show ?thesis by simp
    next
      case False
      from Cons.prems(2) have "k \<in> fst ` set vals" by simp
      from dict_pop_present [OF this] obtain v
        where pop: "dict_pop vals k = Inr (v, AList.delete k vals)" by blast
      have d: "distinct ks" and nk: "k \<notin> set ks" using Cons.prems(1) by simp_all
      have sub: "set ks \<subseteq> fst ` set (AList.delete k vals)"
        using Cons.prems(2) nk by (auto simp: keys_delete)
      have "find (\<lambda>k'. k' \<notin> F \<and> k' \<in> fst ` set (AList.update k v kw)) ks =
            find (\<lambda>k'. k' \<notin> F \<and> k' \<in> fst ` set kw) ks"
        using nk by (intro find_cong) (auto simp: dom_update)
      also have "\<dots> = Some g" using Cons.prems(3) notF False by simp
      finally have f: "find (\<lambda>k'. k' \<notin> F \<and> k' \<in> fst ` set (AList.update k v kw)) ks = Some g" .
      from Cons.IH [OF d sub f, of "logged @ [warning k]"] notF False pop
      show ?thesis by simp
    qed
  qed
qed

lemma loop_no_collision:
  assumes "distinct ks" and "set ks \<subseteq> fst ` set vals"
    and "\<forall>k\<in>set ks. k \<notin> F \<longrightarrow> k \<notin> fst ` set kw"
  shows "\<exists>vals' kw'. build_extra_loop F ks vals (PDict kw) logged =
           (logged @ map warning (filter (\<lambda>k. k \<notin> F) ks), Inr (vals', PDict kw'))"
  using assms
proof (induction ks arbitrary: vals kw logged)
  case Nil
  then show ?case by simp
next
  case (Cons k ks)
  show ?case
  proof (cases "k \<in> F")
    case True
    have "\<exists>vals' kw'. build_extra_loop F ks vals (PDict kw) logged =
           (logged @ map warning (filter (\<lambda>k. k \<notin> F) ks), Inr (vals', PDict kw'))"
      using Cons.prems by (intro Cons.IH) auto
    with True show ?thesis by simp
  next
    case notF: False
    with Cons.prems(3) have nin: "k \<notin> fst ` set kw" by simp
    from Cons.prems(2) have "k \<in> fst ` set vals" by simp
    from dict_pop_present [OF this] obtain v
      where pop: "dict_pop vals k = Inr (v, AList.delete k vals)" by blast
    have d: "distinct ks" and nk: "k \<notin> set ks" using Cons.prems(1) by simp_all
    have sub: "set ks \<subseteq> fst ` set (AList.delete k vals)"
      using Cons.prems(2) nk by (auto simp: keys_delete)
    have nc: "\<forall>k'\<in>set ks. k' \<notin> F \<longrightarrow> k' \<notin> fst ` set (AList.update k v kw)"
      using Cons.prems(3) nk by (auto simp: dom_update)
    from Cons.IH [OF d sub nc, of "logged @ [warning k]"] notF nin pop
    show ?thesis by simp
  qed
qed

lemma loop_success:
  assumes "build_extra_loop F ks vals (PDict kw) logged = (logged', Inr (vals', extra'))"
    and "distinct ks"
  shows "(\<forall>k\<in>set ks. k \<notin> F \<longrightarrow> k \<notin> fst ` set kw)
       \<and> (\<exists>kw'. extra' = PDict kw' \<and>
             (\<forall>k. map_of kw' k = (if k \<in> set ks \<and> k \<notin> F then map_of vals k else map_of kw k)))
       \<and> logged' = logged @ map warning (filter (\<lambda>k. k \<notin> F) ks)
       \<and> (\<forall>k. map_of vals' k = (if k \<in> set ks \<and> k \<notin> F then None else map_of vals k))"
  using assms
proof (induction ks arbitrary: vals kw logged)
  case Nil
  then show ?case by auto
next
  case (Cons k ks)
  show ?case
  proof (cases "k \<in> F")
    case True
    with Cons.prems have "build_extra_loop F ks vals (PDict kw) logged = (logged', Inr (vals', extra'))"
      and "distinct ks" by simp_all
    from Cons.IH [OF this] True show ?thesis by auto
  next
    case notF: False
    have nin: "k \<notin> fst ` set kw"
    proof
      assume "k \<in> fst ` set kw"
      with Cons.prems(1) notF show False by simp
    qed
    from Cons.prems(1) notF nin obtain v
      where v: "map_of vals k = Some v"
        and rec: "build_extra_loop F ks (AList.delete k vals) (PDict (AList.update k v kw))
                    (logged @ [warning k]) = (logged', Inr (vals', extra'))"
      by (auto simp: dict_pop_def split: option.splits)
    have d: "distinct ks" and nk: "k \<notin> set ks" using Cons.prems(2) by simp_all
    from Cons.IH [OF rec d] obtain kw'
      where a: "\<forall>k'\<in>set ks. k' \<notin> F \<longrightarrow> k' \<notin> fst ` set (AList.update k v kw)"
        and b: "extra' = PDict kw'"
        and c: "\<forall>k'. map_of kw' k' = (if k' \<in> set ks \<and> k' \<notin> F then map_of (AList.delete k vals) k'
                                       else map_of (AList.update k v kw) k')"
        and e: "logged' = (logged @ [warning k]) @ map warning (filter (\<lambda>k. k \<notin> F) ks)"
        and f: "\<forall>k'. map_of vals' k' = (if k' \<in> set ks \<and> k' \<notin> F then None
                                          else map_of (AList.delete k vals) k')"
      by blast
    have 1: "\<forall>k'\<in>set (k # ks). k' \<notin> F \<longrightarrow> k' \<notin> fst ` set kw"
      using a nin by (auto simp: dom_update)
    have 2: "\<forall>k'. map_of kw' k' = (if k' \<in> set (k # ks) \<and> k' \<notin> F then map_of vals k' else map_of kw k')"
      using c v nk notF by (auto simp: update_conv' delete_conv')
    have 3: "logged' = logged @ map warning (filter (\<lambda>k. k \<notin> F) (k # ks))"
      using e notF by simp
    have 4: "\<forall>k'. map_of vals' k' = (if k' \<in> set (k # ks) \<and> k' \<notin> F then None else map_of vals k')"
      using f notF by (auto simp: delete_conv')
    from 1 2 3 4 b show ?thesis by blast
  qed
qed

lemma loop_needs_dict:
  assumes "build_extra_loop F ks vals extra logged = (logged', Inr r)"
    and "\<exists>k\<in>set ks. k \<notin> F"
  shows "\<exists>kw. extra = PDict kw"
  using assms
proof (induction ks arbitrary: vals extra logged)
  case Nil
  then show ?case by simp
next
  case (Cons k ks)
  show ?case
  proof (cases "k \<in> F")
    case True
    with Cons.prems have "build_extra_loop F ks vals extra logged = (logged', Inr r)"
      and "\<exists>k\<in>set ks. k \<notin> F" by auto
    then show ?thesis by (rule Cons.IH)
  next
    case False
    with Cons.prems(1) show ?thesis
      by (cases extra) (auto split: sum.splits bool.splits prod.splits if_splits)
  qed
qed

lemma loop_keeps_fields:
  assumes "build_extra_loop F ks vals extra logged = (logged', Inr (vals', extra'))"
    and "k \<in> F"
  shows "map_of vals' k = map_of vals k"
  using assms
proof (induction ks arbitrary: vals extra logged)
  case Nil
  then show ?case by simp
next
  case (Cons a ks)
  show ?case
  proof (cases "a \<in> F")
    case True
    with Cons.prems have "build_extra_loop F ks vals extra logged = (logged', Inr (vals', extra'))"
      by simp
    from Cons.IH [OF this Cons.prems(2)] show ?thesis .
  next
    case False
    with Cons.prems(1) obtain v extra1
      where "build_extra_loop F ks (AList.delete a vals) extra1 (logged @ [warning a]) =
               (logged', Inr (vals', extra'))"
      by (auto simp: dict_pop_def split: sum.splits bool.splits prod.splits option.splits)
    from Cons.IH [OF this Cons.prems(2)] False Cons.prems(2) show ?thesis
      by (auto simp: delete_conv')
  qed
qed

lemma construct_success:
  assumes "construct environ others vals = (logged, Inr cfg)"
  shows "\<exists>vals' extra' validated.
           build_extra_loop (all_required_field_names others) (map fst vals) vals
             (initial_extra vals) [] = (logged, Inr (vals', extra'))
         \<and> validate_fields (AList.update ''model_kwargs'' extra' vals') = Inr validated
         \<and> validate_environment environ validated = Inr cfg"
  using assms
  by (auto simp: construct_def build_extra_def split: prod.splits sum.splits)

lemma validate_fields_success:
  assumes "validate_fields vals = Inr validated"
  shows "map_of vals ''model_id'' = Some (PStr (model_id validated))
       \<and> map_of vals ''model_kwargs'' = Some (PDict (model_kwargs validated))
       \<and> (case stochasticai_api_key validated of
             None \<Rightarrow> map_of vals ''stochasticai_api_key'' \<in> {None, Some PNone}
           | Some k \<Rightarrow> map_of vals ''stochasticai_api_key'' = Some (PStr k))"
  using assms
  by (auto simp: validate_fields_def split: option.splits pyval.splits)

lemma validate_environment_success:
  assumes "validate_environment environ validated = Inr cfg"
  shows "model_id cfg = model_id validated \<and> model_kwargs cfg = model_kwargs validated
       \<and> (case stochasticai_api_key validated of
             Some k \<Rightarrow> stochasticai_api_key cfg = Some k
           | None \<Rightarrow> stochasticai_api_key cfg = environ ''STOCHASTICAI_API_KEY''
                      \<and> environ ''STOCHASTICAI_API_KEY'' \<noteq> None)"
  using assms
  by (auto simp: validate_environment_def get_from_dict_or_env_def split: option.splits sum.splits)

lemma own_field_names:
  "''model_id'' \<in> all_required_field_names others"
  "''model_kwargs'' \<in> all_required_field_names others"
  "''stochasticai_api_key'' \<in> all_required_field_names others"
  by (simp_all add: all_required_field_names_def own_fields_def)

lemma construct_collision:
  assumes "distinct (map fst vals)" and "initial_extra vals = PDict kw"
    and "find (\<lambda>k. k \<notin> all_required_field_names others \<and> k \<in> fst ` set kw) (map fst vals) = Some g"
  shows "\<exists>logged. construct environ others vals =
           (logged, Inl (ValueError (''Found '' @ g @ '' supplied twice.'')))"
proof -
  have "set (map fst vals) \<subseteq> fst ` set vals" by simp
  from loop_collision [OF assms(1) this assms(3), of "[]"] obtain logged
    where "build_extra_loop (all_required_field_names others) (map fst vals) vals (PDict kw) [] =
             (logged, Inl (ValueError (''Found '' @ g @ '' supplied twice.'')))" by blast
  then show ?thesis using assms(2) by (simp add: construct_def build_extra_def)
qed

lemma construct_moves:
  assumes "construct environ others vals = (logged, Inr cfg)" and "distinct (map fst vals)"
    and "initial_extra vals = PDict kw"
  shows "(\<forall>k\<in>fst ` set vals. k \<notin> all_required_field_names others \<longrightarrow> k \<notin> fst ` set kw)
       \<and> (\<forall>k. map_of (model_kwargs cfg) k =
             (if k \<in> fst ` set vals \<and> k \<notin> all_required_field_names others
              then map_of vals k else map_of kw k))
       \<and> logged = map warning (filter (\<lambda>k. k \<notin> all_required_field_names others) (map fst vals))"
proof -
  from construct_success [OF assms(1)] obtain vals' extra' validated
    where loop: "build_extra_loop (all_required_field_names others) (map fst vals) vals
             (initial_extra vals) [] = (logged, Inr (vals', extra'))"
      and vf: "validate_fields (AList.update ''model_kwargs'' extra' vals') = Inr validated"
      and ve: "validate_environment environ validated = Inr cfg" by blast
  from loop_success [OF loop [unfolded assms(3)] assms(2)] obtain kw'
    where a: "\<forall>k\<in>set (map fst vals). k \<notin> all_required_field_names others \<longrightarrow> k \<notin> fst ` set kw"
      and b: "extra' = PDict kw'"
      and c: "\<forall>k. map_of kw' k = (if k \<in> set (map fst vals) \<and> k \<notin> all_required_field_names others
                                 then map_of vals k else map_of kw k)"
      and d: "logged = [] @ map warning (filter (\<lambda>k. k \<notin> all_required_field_names others) (map fst vals))"
    by blast
  from validate_fields_success [OF vf] b have "model_kwargs validated = kw'"
    by (simp add: update_conv')
  with validate_environment_success [OF ve] have "model_kwargs cfg = kw'" by simp
  with a c d show ?thesis by simp
qed

lemma construct_needs_dict:
  assumes "construct environ others vals = (logged, Inr cfg)"
  shows "\<exists>kw. initial_extra vals = PDict kw"
proof (cases "\<exists>k\<in>set (map fst vals). k \<notin> all_required_field_names others")
  case True
  from construct_success [OF assms] obtain vals' extra'
    where "build_extra_loop (all_required_field_names others) (map fst vals) vals
             (initial_extra vals) [] = (logged, Inr (vals', extra'))" by blast
  from loop_needs_dict [OF this True] show ?thesis .
next
  case False
  from construct_success [OF assms] obtain vals' extra' validated
    where loop: "build_extra_loop (all_required_field_names others) (map fst vals) vals
             (initial_extra vals) [] = (logged, Inr (vals', extra'))"
      and vf: "validate_fields (AList.update ''model_kwargs'' extra' vals') = Inr validated" by blast
  have "\<And>F ks vs ex lg. \<forall>k\<in>set ks. k \<in> F \<Longrightarrow> build_extra_loop F ks vs ex lg = (lg, Inr (vs, ex))"
  proof -
    fix F :: "string set" and ks vs ex lg
    show "\<forall>k\<in>set ks. k \<in> F \<Longrightarrow> build_extra_loop F ks vs ex lg = (lg, Inr (vs, ex))"
      by (induction ks) auto
  qed
  with False loop have "extra' = initial_extra vals" by auto
  with validate_fields_success [OF vf] show ?thesis by (simp add: update_conv')
qed

lemma build_extra_keeps_fields:
  assumes "build_extra others vals = (logged, Inr vals')"
    and "k \<in> all_required_field_names others" and "k \<noteq> ''model_kwargs''"
  shows "map_of vals' k = map_of vals k"
proof -
  from assms(1) obtain vals1 extra1
    where loop: "build_extra_loop (all_required_field_names others) (map fst vals) vals
                   (initial_extra vals) [] = (logged, Inr (vals1, extra1))"
      and eq: "vals' = AList.update ''model_kwargs'' extra1 vals1"
    by (auto simp: build_extra_def split: prod.splits sum.splits)
  from loop_keeps_fields [OF loop assms(2)] eq assms(3) show ?thesis
    by (simp add: update_conv')
qed

lemma poll_loop_extends_aux:
  assumes "poll_loop self pj gets n tr = Some y"
  shows "\<exists>rest. fst y = tr @ rest"
proof (rule poll_loop.raw_induct
    [where P = "\<lambda>self pj gets n tr y. \<exists>rest. fst y = tr @ rest", OF _ assms])
  fix f :: "config \<Rightarrow> pyval \<Rightarrow> (nat \<Rightarrow> reply) \<Rightarrow> nat \<Rightarrow> event list \<Rightarrow> (event list \<times> (error + pyval)) option"
  fix self pj gets n tr y
  assume IH: "\<And>self pj gets n tr y. f self pj gets n tr = Some y \<Longrightarrow> \<exists>rest. fst y = tr @ rest"
  assume body: "(case poll_once self pj (gets n) of
      (evs, Inl e) \<Rightarrow> Some (tr @ evs, Inl e)
      | (evs, Inr text) \<Rightarrow>
          if text \<noteq> PNone then Some (tr @ evs, Inr text)
          else f self pj gets (Suc n) (tr @ evs)) = Some y"
  obtain evs r where po: "poll_once self pj (gets n) = (evs, r)" by (cases "poll_once self pj (gets n)")
  show "\<exists>rest. fst y = tr @ rest"
  proof (cases r)
    case (Inl e)
    with body po show ?thesis by auto
  next
    case (Inr t)
    show ?thesis
    proof (cases "t = PNone")
      case True
      with body po Inr have "f self pj gets (Suc n) (tr @ evs) = Some y" by simp
      from IH [OF this] show ?thesis by auto
    next
      case False
      with body po Inr show ?thesis by auto
    qed
  qed
qed

lemma poll_loop_extends:
  assumes "poll_loop self pj gets n tr = Some (trace, result)"
  shows "\<exists>rest. trace = tr @ rest"
  using poll_loop_extends_aux [OF assms] by simp

lemma call_trace_starts:
  assumes "call self post_reply gets prompt stop = Some (trace, result)"
  shows "\<exists>rest. trace = post_request self prompt # rest"
proof (cases "\<exists>rp pj. post_reply = Inr rp \<and> raise_for_status rp = Inr () \<and> response_json rp = Inr pj")
  case False
  with assms show ?thesis
    by (auto simp: call_def split: sum.splits)
next
  case True
  then obtain rp pj where h: "post_reply = Inr rp" "raise_for_status rp = Inr ()" "response_json rp = Inr pj"
    by blast
  with assms obtain r where "poll_loop self pj gets 0 [post_request self prompt] = Some (trace, r)"
    by (auto simp: call_def split: option.splits sum.splits prod.splits pyval.splits)
  from poll_loop_extends [OF this] show ?thesis by auto
qed

section \<open>The call within a bounded number of polls\<close>

lemma poll_upto_extends:
  "\<exists>rest. fst (poll_upto fuel self pj gets n tr) = tr @ rest"
proof (induction fuel arbitrary: n tr)
  case 0
  then show ?case by simp
next
  case (Suc fuel)
  obtain evs r where po: "poll_once self pj (gets n) = (evs, r)" by (cases "poll_once self pj (gets n)")
  show ?case
  proof (cases r)
    case (Inl e)
    with po show ?thesis by simp
  next
    case (Inr t)
    show ?thesis
    proof (cases "t = PNone")
      case True
      from Suc.IH [of "Suc n" "tr @ evs"] obtain rest
        where "fst (poll_upto fuel self pj gets (Suc n) (tr @ evs)) = (tr @ evs) @ rest" by blast
      with po Inr True show ?thesis by simp
    next
      case False
      with po Inr show ?thesis by simp
    qed
  qed
qed

lemma poll_upto_sound:
  "poll_upto fuel self pj gets n tr = (trace, Some r) \<Longrightarrow> poll_loop self pj gets n tr = Some (trace, r)"
proof (induction fuel arbitrary: n tr)
  case 0
  then show ?case by simp
next
  case (Suc fuel)
  obtain evs x where po: "poll_once self pj (gets n) = (evs, x)" by (cases "poll_once self pj (gets n)")
  show ?case
  proof (cases x)
    case (Inl e)
    with po Suc.prems show ?thesis by (subst poll_loop.simps) auto
  next
    case (Inr t)
    show ?thesis
    proof (cases "t = PNone")
      case True
      with po Inr Suc.prems have "poll_upto fuel self pj gets (Suc n) (tr @ evs) = (trace, Some r)"
        by simp
      then have "poll_loop self pj gets (Suc n) (tr @ evs) = Some (trace, r)" by (rule Suc.IH)
      with po Inr True show ?thesis by (subst poll_loop.simps) simp
    next
      case False
      with po Inr Suc.prems show ?thesis by (subst poll_loop.simps) auto
    qed
  qed
qed

lemma poll_upto_complete_aux:
  assumes "poll_loop self pj gets n tr = Some y"
  shows "\<exists>fuel. poll_upto fuel self pj gets n tr = (fst y, Some (snd y))"
proof (rule poll_loop.raw_induct
    [where P = "\<lambda>self pj gets n tr y. \<exists>fuel. poll_upto fuel self pj gets n tr = (fst y, Some (snd y))",
     OF _ assms])
  fix f :: "config \<Rightarrow> pyval \<Rightarrow> (nat \<Rightarrow> reply) \<Rightarrow> nat \<Rightarrow> event list \<Rightarrow> (event list \<times> (error + pyval)) option"
  fix self pj gets n tr y
  assume IH: "\<And>self pj gets n tr y. f self pj gets n tr = Some y \<Longrightarrow>
    \<exists>fuel. poll_upto fuel self pj gets n tr = (fst y, Some (snd y))"
  assume body: "(case poll_once self pj (gets n) of
      (evs, Inl e) \<Rightarrow> Some (tr @ evs, Inl e)
      | (evs, Inr text) \<Rightarrow>
          if text \<noteq> PNone then Some (tr @ evs, Inr text)
          else f self pj gets (Suc n) (tr @ evs)) = Some y"
  obtain evs x where po: "poll_once self pj (gets n) = (evs, x)" by (cases "poll_once self pj (gets n)")
  show "\<exists>fuel. poll_upto fuel self pj gets n tr = (fst y, Some (snd y))"
  proof (cases x)
    case (Inl e)
    with body po have "poll_upto (Suc 0) self pj gets n tr = (fst y, Some (snd y))" by auto
    then show ?thesis by blast
  next
    case (Inr t)
    show ?thesis
    proof (cases "t = PNone")
      case True
      with body po Inr have "f self pj gets (Suc n) (tr @ evs) = Some y" by simp
      from IH [OF this] obtain fuel
        where "poll_upto fuel self pj gets (Suc n) (tr @ evs) = (fst y, Some (snd y))" by blast
      with po Inr True have "poll_upto (Suc fuel) self pj gets n tr = (fst y, Some (snd y))" by simp
      then show ?thesis by blast
    next
      case False
      with body po Inr have "poll_upto (Suc 0) self pj gets n tr = (fst y, Some (snd y))" by auto
      then show ?thesis by blast
    qed
  qed
qed

lemma poll_upto_complete:
  "poll_loop self pj gets n tr = Some (trace, r) \<Longrightarrow>
   \<exists>fuel. poll_upto fuel self pj gets n tr = (trace, Some r)"
  using poll_upto_complete_aux [of self pj gets n tr "(trace, r)"] by simp

lemma call_upto_starts:
  "\<exists>rest. fst (call_upto fuel self post_reply gets prompt stop) = post_request self prompt # rest"
proof (cases "\<exists>rp pj. post_reply = Inr rp \<and> raise_for_status rp = Inr () \<and> response_json rp = Inr pj")
  case False
  then show ?thesis by (auto simp: call_upto_def split: sum.splits)
next
  case True
  then obtain rp pj where h: "post_reply = Inr rp" "raise_for_status rp = Inr ()" "response_json rp = Inr pj"
    by blast
  obtain tr' o' where pu: "poll_upto fuel self pj gets 0 [post_request self prompt] = (tr', o')"
    by (cases "poll_upto fuel self pj gets 0 [post_request self prompt]")
  from poll_upto_extends [of fuel self pj gets 0 "[post_request self prompt]"] pu
  obtain rest where "tr' = post_request self prompt # rest" by auto
  moreover have "fst (call_upto fuel self post_reply gets prompt stop) = tr'"
    using h pu by (auto simp: call_upto_def split: option.splits sum.splits pyval.splits)
  ultimately show ?thesis by simp
qed

lemma call_upto_sound:
  assumes "call_upto fuel self post_reply gets prompt stop = (trace, Some result)"
  shows "call self post_reply gets prompt stop = Some (trace, result)"
proof (cases "\<exists>rp pj. post_reply = Inr rp \<and> raise_for_status rp = Inr () \<and> response_json rp = Inr pj")
  case False
  with assms show ?thesis
    by (auto simp: call_upto_def call_def split: sum.splits)
next
  case True
  then obtain rp pj where h: "post_reply = Inr rp" "raise_for_status rp = Inr ()" "response_json rp = Inr pj"
    by blast
  obtain tr' o' where pu: "poll_upto fuel self pj gets 0 [post_request self prompt] = (tr', o')"
    by (cases "poll_upto fuel self pj gets 0 [post_request self prompt]")
  from assms h pu obtain x where o': "o' = Some x"
    by (cases o') (auto simp: call_upto_def)
  from poll_upto_sound [OF pu [unfolded o']]
  have pl: "poll_loop self pj gets 0 [post_request self prompt] = Some (tr', x)" .
  from assms h pu o' pl show ?thesis
    by (auto simp: call_upto_def call_def split: sum.splits option.splits pyval.splits)
qed

lemma call_upto_complete:
  assumes "call self post_reply gets prompt stop = Some (trace, result)"
  shows "\<exists>fuel. call_upto fuel self post_reply gets prompt stop = (trace, Some result)"
proof (cases "\<exists>rp pj. post_reply = Inr rp \<and> raise_for_status rp = Inr () \<and> response_json rp = Inr pj")
  case False
  with assms have "call_upto 0 self post_reply gets prompt stop = (trace, Some result)"
    by (auto simp: call_upto_def call_def split: sum.splits)
  then show ?thesis by blast
next
  case True
  then obtain rp pj where h: "post_reply = Inr rp" "raise_for_status rp = Inr ()" "response_json rp = Inr pj"
    by blast
  from assms h obtain tr' x where pl: "poll_loop self pj gets 0 [post_request self prompt] = Some (tr', x)"
    by (auto simp: call_def split: option.splits)
  from poll_upto_complete [OF pl] obtain fuel
    where pu: "poll_upto fuel self pj gets 0 [post_request self prompt] = (tr', Some x)" by blast
  from assms h pl pu have "call_upto fuel self post_reply gets prompt stop = (trace, Some result)"
    by (auto simp: call_upto_def call_def split: sum.splits option.splits pyval.splits)
  then show ?thesis by blast
qed

lemma call_upto_agrees:
  "(call self post_reply gets prompt stop = Some (trace, result)) =
   (\<exists>fuel. call_upto fuel self post_reply gets prompt stop = (trace, Some result))"
  using call_upto_sound call_upto_complete by blast

lemma call_upto_diverges:
  "(call self post_reply gets prompt stop = None) =
   (\<forall>fuel. snd (call_upto fuel self post_reply gets prompt stop) = None)"
proof
  assume n: "call self post_reply gets prompt stop = None"
  show "\<forall>fuel. snd (call_upto fuel self post_reply gets prompt stop) = None"
  proof
    fix fuel
    show "snd (call_upto fuel self post_reply gets prompt stop) = None"
    proof (cases "call_upto fuel self post_reply gets prompt stop")
      case (Pair tr out)
      show ?thesis
      proof (cases out)
        case None
        with Pair show ?thesis by simp
      next
        case (Some r)
        with Pair call_upto_sound [of fuel self post_reply gets prompt stop tr r] n
        show ?thesis by simp
      qed
    qed
  qed
next
  assume a: "\<forall>fuel. snd (call_upto fuel self post_reply gets prompt stop) = None"
  show "call self post_reply gets prompt stop = None"
  proof (cases "call self post_reply gets prompt stop")
    case None
    then show ?thesis .
  next
    case (Some y)
    then have "call self post_reply gets prompt stop = Some (fst y, snd y)" by simp
    from call_upto_complete [OF this] obtain fuel
      where "call_upto fuel self post_reply gets prompt stop = (fst y, Some (snd y))" by blast
    then have "snd (call_upto fuel self post_reply gets prompt stop) = Some (snd y)" by simp
    with a show ?thesis by simp
  qed
qed

lemma poll_upto_pending:
  assumes "poll_url pj = Inr url" and "\<forall>k. read_completion (gets k) = Inr PNone"
  shows "poll_upto fuel self pj gets n tr = (tr @ polls self url fuel, None)"
proof (induction fuel arbitrary: n tr)
  case 0
  then show ?case by (simp add: polls_def)
next
  case (Suc fuel)
  from assms have "poll_once self pj (gets n) = ([Get url (headers self), Sleep (1 / 2)], Inr PNone)"
    by (simp add: poll_once_def)
  with Suc.IH [of "Suc n" "tr @ [Get url (headers self), Sleep (1 / 2)]"]
  show ?case by (simp add: polls_Suc)
qed

section \<open>Claims about the call\<close>

text \<open>
  Claim C1, as the code has it. After a successful submission, when the first two
  replies are read as no completion yet and the third carries the completion
  \<^verbatim>\<open>["Hello world"]\<close>, a call without stop list issues the POST and exactly three GET
  requests to the poll URL and returns \<^verbatim>\<open>"Hello world"\<close>. The sleep of half a second
  is the last statement of the loop body, so it follows every GET, the third one too:
  three sleeps, one and a half seconds.
\<close>

theorem three_polls:
  assumes "post_reply = Inr response_post"
    and "raise_for_status response_post = Inr ()"
    and "response_json response_post = Inr response_post_json"
    and "poll_url response_post_json = Inr url"
    and "read_completion (gets 0) = Inr PNone"
    and "read_completion (gets 1) = Inr PNone"
    and "read_completion (gets 2) = Inr (PList [PStr ''Hello world''])"
  shows "\<exists>trace.
           call self post_reply gets prompt None = Some (trace, Inr (PStr ''Hello world''))
         \<and> trace = [post_request self prompt,
                     Get url (headers self), Sleep (1 / 2),
                     Get url (headers self), Sleep (1 / 2),
                     Get url (headers self), Sleep (1 / 2)]
         \<and> get_urls trace = [url, url, url]
         \<and> sleeps trace = [1 / 2, 1 / 2, 1 / 2]
         \<and> sum_list (sleeps trace) = 3 / 2"
proof -
  have pending: "\<forall>k<2. read_completion (gets k) = Inr PNone"
    using assms(5,6) by (auto simp: less_2_cases_iff)
  have "poll_loop self response_post_json gets 0 [post_request self prompt] =
          Some ([post_request self prompt] @ polls self url 2 @ [Get url (headers self), Sleep (1 / 2)],
                Inr (PList [PStr ''Hello world'']))"
    using assms(4) pending assms(7) by (rule poll_loop_completes) simp
  then have "call self post_reply gets prompt None =
           Some ([post_request self prompt,
                  Get url (headers self), Sleep (1 / 2),
                  Get url (headers self), Sleep (1 / 2),
                  Get url (headers self), Sleep (1 / 2)], Inr (PStr ''Hello world''))"
    using assms(1,2,3) by (simp add: call_def polls_2)
  then show ?thesis by (simp add: post_request_def)
qed

text \<open>The spec's scenario of C1, run through the theorem.\<close>

theorem three_polls_witness:
  "call example_config (Inr (data_response 200 (PDict [(''responseUrl'', PStr ''https://poll'')])))
     (\<lambda>n. Inr (data_response 200
        (PDict [(''completion'', if n < 2 then PNone else PList [PStr ''Hello world''])])))
     ''Hi'' None =
   Some ([post_request example_config ''Hi'',
          Get (PStr ''https://poll'') (headers example_config), Sleep (1 / 2),
          Get (PStr ''https://poll'') (headers example_config), Sleep (1 / 2),
          Get (PStr ''https://poll'') (headers example_config), Sleep (1 / 2)],
         Inr (PStr ''Hello world''))"
proof -
  let ?post = "data_response 200 (PDict [(''responseUrl'', PStr ''https://poll'')])"
  let ?gets = "\<lambda>n::nat. Inr (data_response 200
        (PDict [(''completion'', if n < 2 then PNone else PList [PStr ''Hello world''])])) :: reply"
  have 1: "raise_for_status ?post = Inr ()"
    by (simp add: raise_for_status_def data_response_def)
  have 2: "response_json ?post = Inr (PDict [(''data'', PDict [(''responseUrl'', PStr ''https://poll'')])])"
    by (simp add: response_json_def data_response_def)
  have 3: "poll_url (PDict [(''data'', PDict [(''responseUrl'', PStr ''https://poll'')])]) = Inr (PStr ''https://poll'')"
    by (simp add: poll_url_def)
  have 4: "read_completion (?gets 0) = Inr PNone"
    and 5: "read_completion (?gets 1) = Inr PNone"
    and 6: "read_completion (?gets 2) = Inr (PList [PStr ''Hello world''])"
    by (simp_all add: read_completion_def raise_for_status_def response_json_def data_response_def)
  from three_polls [OF refl 1 2 3 4 5 6, of example_config "''Hi''"] show ?thesis by auto
qed

text \<open>
  C1 as stated (a sleep only between attempts, two sleeps) fails on the same scenario:
  the call makes three GET requests and sleeps three times.
\<close>

theorem two_sleeps_counterexample:
  "map_option (\<lambda>(trace, result). (length (get_urls trace), sleeps trace, result))
     (call example_config (Inr (data_response 200 (PDict [(''responseUrl'', PStr ''https://poll'')])))
        (\<lambda>n. Inr (data_response 200
           (PDict [(''completion'', if n < 2 then PNone else PList [PStr ''Hello world''])])))
        ''Hi'' None) =
   Some (3, [1 / 2, 1 / 2, 1 / 2], Inr (PStr ''Hello world''))"
  by (simp add: call_def poll_loop.simps poll_once_def read_completion_def poll_url_def
        data_response_def raise_for_status_def response_json_def post_request_def)

text \<open>
  Claim C2. After a successful submission, when the loop ends on a reply whose
  completion list starts with the string \<open>raw\<close>, the call returns \<open>raw\<close> itself when
  no stop list is given, and with a stop list the prefix of \<open>raw\<close> that ends where the
  first occurrence of any stop sequence starts: no stop sequence starts at an earlier
  position, and one starts at position \<open>k\<close> unless the whole of \<open>raw\<close> is returned.
\<close>

theorem stop_truncates:
  assumes "post_reply = Inr response_post"
    and "raise_for_status response_post = Inr ()"
    and "response_json response_post = Inr response_post_json"
    and "poll_url response_post_json = Inr url"
    and "\<forall>k<n. read_completion (gets k) = Inr PNone"
    and "read_completion (gets n) = Inr (PList (PStr raw # candidates))"
  shows "\<exists>trace.
           call self post_reply gets prompt None = Some (trace, Inr (PStr raw))
         \<and> (\<forall>stop. \<exists>k\<le>length raw.
               call self post_reply gets prompt (Some stop) = Some (trace, Inr (PStr (take k raw)))
             \<and> take k raw = enforce_stop_tokens raw stop
             \<and> (\<forall>j<k. \<forall>s\<in>set stop. \<not> prefix s (drop j raw))
             \<and> (k < length raw \<longrightarrow> (\<exists>s\<in>set stop. prefix s (drop k raw))))"
proof -
  let ?trace = "[post_request self prompt] @ polls self url n @ [Get url (headers self), Sleep (1 / 2)]"
  have loop: "poll_loop self response_post_json gets 0 [post_request self prompt] =
          Some (?trace, Inr (PList (PStr raw # candidates)))"
    using assms(4,5,6) by (rule poll_loop_completes) simp
  have none: "call self post_reply gets prompt None = Some (?trace, Inr (PStr raw))"
    using assms(1,2,3) loop by (simp add: call_def)
  have some: "call self post_reply gets prompt (Some stop) =
                Some (?trace, Inr (PStr (enforce_stop_tokens raw stop)))" for stop
    using assms(1,2,3) loop by (simp add: call_def)
  show ?thesis
  proof (intro exI [of _ ?trace] conjI allI)
    show "call self post_reply gets prompt None = Some (?trace, Inr (PStr raw))" by (rule none)
  next
    fix stop
    from enforce_stop_tokens_first_occurrence [of raw stop]
    obtain k where "k \<le> length raw" "enforce_stop_tokens raw stop = take k raw"
      "\<forall>j<k. \<forall>s\<in>set stop. \<not> prefix s (drop j raw)"
      "k < length raw \<longrightarrow> (\<exists>s\<in>set stop. prefix s (drop k raw))"
      by blast
    then show "\<exists>k\<le>length raw.
               call self post_reply gets prompt (Some stop) = Some (?trace, Inr (PStr (take k raw)))
             \<and> take k raw = enforce_stop_tokens raw stop
             \<and> (\<forall>j<k. \<forall>s\<in>set stop. \<not> prefix s (drop j raw))
             \<and> (k < length raw \<longrightarrow> (\<exists>s\<in>set stop. prefix s (drop k raw)))"
      using some [of stop] by (intro exI [of _ k]) simp
  qed
qed

text \<open>The spec's example of C2: \<^verbatim>\<open>"Hello world, goodbye"\<close> with stop
  \<^verbatim>\<open>["world"]\<close> gives \<^verbatim>\<open>"Hello "\<close>.\<close>

theorem stop_truncates_witness:
  "\<exists>trace.
      call example_config (Inr (data_response 200 (PDict [(''responseUrl'', PStr ''https://poll'')])))
        (\<lambda>n. Inr (data_response 200 (PDict [(''completion'', PList [PStr ''Hello world, goodbye''])])))
        ''Hi'' None = Some (trace, Inr (PStr ''Hello world, goodbye''))
    \<and> call example_config (Inr (data_response 200 (PDict [(''responseUrl'', PStr ''https://poll'')])))
        (\<lambda>n. Inr (data_response 200 (PDict [(''completion'', PList [PStr ''Hello world, goodbye''])])))
        ''Hi'' (Some [''world'']) = Some (trace, Inr (PStr ''Hello ''))"
proof -
  let ?post = "data_response 200 (PDict [(''responseUrl'', PStr ''https://poll'')])"
  let ?gets = "\<lambda>n::nat. Inr (data_response 200 (PDict [(''completion'', PList [PStr ''Hello world, goodbye''])])) :: reply"
  have 1: "raise_for_status ?post = Inr ()"
    by (simp add: raise_for_status_def data_response_def)
  have 2: "response_json ?post = Inr (PDict [(''data'', PDict [(''responseUrl'', PStr ''https://poll'')])])"
    by (simp add: response_json_def data_response_def)
  have 3: "poll_url (PDict [(''data'', PDict [(''responseUrl'', PStr ''https://poll'')])]) = Inr (PStr ''https://poll'')"
    by (simp add: poll_url_def)
  have 4: "\<forall>k<0. read_completion (?gets k) = Inr PNone" by simp
  have 5: "read_completion (?gets 0) = Inr (PList (PStr ''Hello world, goodbye'' # []))"
    by (simp add: read_completion_def raise_for_status_def response_json_def data_response_def)
  from stop_truncates [OF refl 1 2 3 4 5, of example_config "''Hi''"]
  obtain trace where a: "call example_config (Inr ?post) ?gets ''Hi'' None =
        Some (trace, Inr (PStr ''Hello world, goodbye''))"
    and b: "\<forall>stop. \<exists>k\<le>length ''Hello world, goodbye''.
        call example_config (Inr ?post) ?gets ''Hi'' (Some stop) =
          Some (trace, Inr (PStr (take k ''Hello world, goodbye'')))
        \<and> take k ''Hello world, goodbye'' = enforce_stop_tokens ''Hello world, goodbye'' stop
        \<and> (\<forall>j<k. \<forall>s\<in>set stop. \<not> prefix s (drop j ''Hello world, goodbye''))
        \<and> (k < length ''Hello world, goodbye'' \<longrightarrow> (\<exists>s\<in>set stop. prefix s (drop k ''Hello world, goodbye'')))"
    by blast
  from b obtain k where c: "call example_config (Inr ?post) ?gets ''Hi'' (Some [''world'']) =
          Some (trace, Inr (PStr (take k ''Hello world, goodbye'')))"
    and d: "take k ''Hello world, goodbye'' = enforce_stop_tokens ''Hello world, goodbye'' [''world'']"
    by blast
  have "enforce_stop_tokens ''Hello world, goodbye'' [''world''] = ''Hello ''" by simp
  with a c d show ?thesis by (intro exI [of _ trace]) simp
qed

text \<open>
  Claim C6, as the code has it. When the POST is answered with a status that
  \<^verbatim>\<open>raise_for_status\<close> reports, 400 to 599, the call fails at once with that HTTP
  error: the trace holds the POST alone, no GET and no second POST.
\<close>

theorem post_error_status:
  assumes "400 \<le> status_code response_post" and "status_code response_post < 600"
  shows "call self (Inr response_post) gets prompt stop =
           Some ([post_request self prompt], Inl (HTTPError (status_code response_post)))"
  using assms by (simp add: call_def raise_for_status_def)

text \<open>C6 at status 500.\<close>

theorem post_error_status_witness:
  "call example_config (Inr (data_response 500 (PDict [(''responseUrl'', PStr ''https://poll'')])))
     (\<lambda>n. Inr (data_response 200 (PDict [(''completion'', PList [PStr ''Hello world''])])))
     ''Hi'' None =
   Some ([post_request example_config ''Hi''], Inl (HTTPError 500))"
  using post_error_status
    [of "data_response 500 (PDict [(''responseUrl'', PStr ''https://poll'')])" example_config
        "\<lambda>n. Inr (data_response 200 (PDict [(''completion'', PList [PStr ''Hello world''])]))"
        "''Hi''" None]
  by (simp add: data_response_def)

text \<open>
  C6 as stated (any non-success status) fails at a status outside 200 to 299 that is no
  error status: with 304 the call goes on, issues a GET and returns normally.
\<close>

theorem post_not_modified_counterexample:
  "call example_config (Inr (data_response 304 (PDict [(''responseUrl'', PStr ''https://poll'')])))
     (\<lambda>n. Inr (data_response 200 (PDict [(''completion'', PList [PStr ''Hello world''])])))
     ''Hi'' None =
   Some ([post_request example_config ''Hi'',
          Get (PStr ''https://poll'') (headers example_config), Sleep (1 / 2)],
         Inr (PStr ''Hello world''))"
  by (simp add: call_def poll_loop.simps poll_once_def read_completion_def poll_url_def
        data_response_def raise_for_status_def response_json_def)

text \<open>
  Claim C7. When the POST is answered without an HTTP error but its body is not JSON
  or is not an object with a \<^verbatim>\<open>data\<close> object that has a \<^verbatim>\<open>responseUrl\<close> entry, the
  call fails with the decoding, type or key error of the missing part, and the trace
  holds the POST alone: no GET is issued.
\<close>

theorem missing_response_url:
  assumes "raise_for_status response_post = Inr ()" and "\<not> has_response_url response_post"
  shows "\<exists>e\<in>{JSONDecodeError, TypeError, KeyError (PStr ''data''), KeyError (PStr ''responseUrl'')}.
           call self (Inr response_post) gets prompt stop =
             Some ([post_request self prompt], Inl e)"
proof (cases "json_body response_post")
  case None
  then show ?thesis using assms(1) by (simp add: call_def response_json_def)
next
  case (Some j)
  from poll_url_error [OF assms(2) Some] obtain e
    where e: "e \<in> {TypeError, KeyError (PStr ''data''), KeyError (PStr ''responseUrl'')}"
      and "poll_url j = Inl e" by blast
  then have "poll_loop self j gets 0 [post_request self prompt] = Some ([post_request self prompt], Inl e)"
    by (simp add: poll_loop_no_url)
  then have "call self (Inr response_post) gets prompt stop = Some ([post_request self prompt], Inl e)"
    using assms(1) Some by (simp add: call_def response_json_def)
  with e show ?thesis by blast
qed

text \<open>C7 on the body \<^verbatim>\<open>{"data": {}}\<close>.\<close>

theorem missing_response_url_witness:
  "call example_config (Inr (data_response 200 (PDict [])))
     (\<lambda>n. Inr (data_response 200 (PDict [(''completion'', PList [PStr ''Hello world''])])))
     ''Hi'' None =
   Some ([post_request example_config ''Hi''], Inl (KeyError (PStr ''responseUrl'')))"
proof -
  have 1: "raise_for_status (data_response 200 (PDict [])) = Inr ()"
    by (simp add: raise_for_status_def data_response_def)
  have 2: "\<not> has_response_url (data_response 200 (PDict []))"
    by (simp add: has_response_url_def data_response_def)
  have 3: "\<forall>e'. call example_config (Inr (data_response 200 (PDict [])))
     (\<lambda>n. Inr (data_response 200 (PDict [(''completion'', PList [PStr ''Hello world''])])))
     ''Hi'' None = Some ([post_request example_config ''Hi''], Inl e') \<longrightarrow> e' = KeyError (PStr ''responseUrl'')"
    by (simp add: call_def poll_loop.simps poll_once_def read_completion_def poll_url_def
        data_response_def raise_for_status_def response_json_def)
  from missing_response_url [OF 1 2] 3 show ?thesis by blast
qed

text \<open>
  Claim C9, as the code has it. Once the poll URL is known, the call never returns if
  and only if every reply is read as no completion yet: a response without HTTP error
  whose body is an object with a \<^verbatim>\<open>data\<close> object whose \<^verbatim>\<open>completion\<close> is absent or
  null. There is no bound on the number of attempts. A failing read (an exception of
  the GET, a status from 400 to 599, a body that is not JSON or has no \<^verbatim>\<open>data\<close>
  object) ends the call at that attempt with that error, without retry.
\<close>

theorem polling_unbounded:
  assumes "post_reply = Inr response_post"
    and "raise_for_status response_post = Inr ()"
    and "response_json response_post = Inr response_post_json"
    and "poll_url response_post_json = Inr url"
  shows "((call self post_reply gets prompt stop = None) =
            (\<forall>k. read_completion (gets k) = Inr PNone))
       \<and> (\<forall>n e. (\<forall>k<n. read_completion (gets k) = Inr PNone) \<and> read_completion (gets n) = Inl e
            \<longrightarrow> call self post_reply gets prompt stop =
                  Some (post_request self prompt # polls self url n @ [Get url (headers self)], Inl e))"
proof (intro conjI allI impI)
  show "(call self post_reply gets prompt stop = None) =
            (\<forall>k. read_completion (gets k) = Inr PNone)"
  proof
    assume "call self post_reply gets prompt stop = None"
    then have none: "poll_loop self response_post_json gets 0 [post_request self prompt] = None"
      using assms(1,2,3) by (simp add: call_None_iff)
    show "\<forall>k. read_completion (gets k) = Inr PNone"
    proof (rule ccontr)
      assume "\<not> (\<forall>k. read_completion (gets k) = Inr PNone)"
      then obtain k where "read_completion (gets k) \<noteq> Inr PNone" by blast
      with assms(4) have "poll_loop self response_post_json gets 0 [post_request self prompt] \<noteq> None"
        by (rule poll_loop_terminates)
      with none show False by simp
    qed
  next
    assume all: "\<forall>k. read_completion (gets k) = Inr PNone"
    have "poll_loop self response_post_json gets 0 [post_request self prompt] = None"
    proof (cases "poll_loop self response_post_json gets 0 [post_request self prompt]")
      case None
      then show ?thesis .
    next
      case (Some y)
      from poll_loop_forever [OF Some] all assms(4) show ?thesis by simp
    qed
    then show "call self post_reply gets prompt stop = None"
      using assms(1,2,3) by (simp add: call_None_iff)
  qed
next
  fix n e
  assume h: "(\<forall>k<n. read_completion (gets k) = Inr PNone) \<and> read_completion (gets n) = Inl e"
  from h have h1: "\<forall>k<n. read_completion (gets k) = Inr PNone"
    and h2: "read_completion (gets n) = Inl e" by simp_all
  have "poll_loop self response_post_json gets 0 [post_request self prompt] =
      Some ([post_request self prompt] @ polls self url n @ [Get url (headers self)], Inl e)"
    using assms(4) h1 h2 by (rule poll_loop_fails)
  then show "call self post_reply gets prompt stop =
      Some (post_request self prompt # polls self url n @ [Get url (headers self)], Inl e)"
    using assms(1,2,3) by (simp add: call_def)
qed

text \<open>C9 on a server that never completes, and on one that answers 503 to the
  second GET.\<close>

theorem polling_unbounded_witness:
  "call example_config (Inr (data_response 200 (PDict [(''responseUrl'', PStr ''https://poll'')])))
     (\<lambda>n. Inr (data_response 200 (PDict [(''completion'', PNone)]))) ''Hi'' None = None
   \<and> call example_config (Inr (data_response 200 (PDict [(''responseUrl'', PStr ''https://poll'')])))
     (\<lambda>n. Inr (data_response (if n < 1 then 200 else 503) (PDict [(''completion'', PNone)]))) ''Hi'' None =
       Some ([post_request example_config ''Hi'',
              Get (PStr ''https://poll'') (headers example_config), Sleep (1 / 2),
              Get (PStr ''https://poll'') (headers example_config)], Inl (HTTPError 503))"
proof -
  let ?post = "data_response 200 (PDict [(''responseUrl'', PStr ''https://poll'')])"
  have 1: "raise_for_status ?post = Inr ()"
    by (simp add: raise_for_status_def data_response_def)
  have 2: "response_json ?post = Inr (PDict [(''data'', PDict [(''responseUrl'', PStr ''https://poll'')])])"
    by (simp add: response_json_def data_response_def)
  have 3: "poll_url (PDict [(''data'', PDict [(''responseUrl'', PStr ''https://poll'')])]) = Inr (PStr ''https://poll'')"
    by (simp add: poll_url_def)
  have a: "\<forall>k. read_completion (Inr (data_response 200 (PDict [(''completion'', PNone)]))) = Inr PNone"
    by (simp add: read_completion_def raise_for_status_def response_json_def data_response_def)
  have b: "(\<forall>k<1. read_completion (Inr (data_response (if k < 1 then 200 else 503) (PDict [(''completion'', PNone)]))) = Inr PNone)
      \<and> read_completion (Inr (data_response (if (1::nat) < 1 then 200 else 503) (PDict [(''completion'', PNone)]))) = Inl (HTTPError 503)"
    by (simp add: read_completion_def raise_for_status_def response_json_def data_response_def)
  from polling_unbounded [OF refl 1 2 3, of example_config
      "\<lambda>n. Inr (data_response 200 (PDict [(''completion'', PNone)]))" "''Hi''" None] a
  have "call example_config (Inr ?post)
     (\<lambda>n. Inr (data_response 200 (PDict [(''completion'', PNone)]))) ''Hi'' None = None"
    by blast
  moreover
  from polling_unbounded [OF refl 1 2 3, of example_config
      "\<lambda>n. Inr (data_response (if n < 1 then 200 else 503) (PDict [(''completion'', PNone)]))" "''Hi''" None] b
  have "call example_config (Inr ?post)
     (\<lambda>n. Inr (data_response (if n < 1 then 200 else 503) (PDict [(''completion'', PNone)]))) ''Hi'' None =
       Some (post_request example_config ''Hi'' # polls example_config (PStr ''https://poll'') 1 @
               [Get (PStr ''https://poll'') (headers example_config)], Inl (HTTPError 503))"
    by blast
  ultimately show ?thesis by (simp add: polls_def)
qed

text \<open>
  C9 as stated fails on both sides. On replies that all have status 200 and never carry
  a completion the loop need not run forever: a body without \<^verbatim>\<open>data\<close> entry ends the
  call at the first GET with a key error. And a GET answered with a status that is
  neither a success nor an error status does not fail the call: after a 304 the loop
  sleeps and polls again.
\<close>

theorem polling_protocol_error_counterexample:
  "call example_config (Inr (data_response 200 (PDict [(''responseUrl'', PStr ''https://poll'')])))
     (\<lambda>n. Inr \<lparr>status_code = 200, json_body = Some (PDict [])\<rparr>) ''Hi'' None =
   Some ([post_request example_config ''Hi'', Get (PStr ''https://poll'') (headers example_config)],
         Inl (KeyError (PStr ''data'')))
 \<and> call example_config (Inr (data_response 200 (PDict [(''responseUrl'', PStr ''https://poll'')])))
     (\<lambda>n. Inr (if n < 1 then data_response 304 (PDict [])
                else data_response 200 (PDict [(''completion'', PList [PStr ''Hello world''])])))
     ''Hi'' None =
   Some ([post_request example_config ''Hi'',
          Get (PStr ''https://poll'') (headers example_config), Sleep (1 / 2),
          Get (PStr ''https://poll'') (headers example_config), Sleep (1 / 2)],
         Inr (PStr ''Hello world''))"
  by (simp add: call_def poll_loop.simps poll_once_def read_completion_def poll_url_def
        data_response_def raise_for_status_def response_json_def)

text \<open>
  Claim C10. When the first reply with a completion that is not \<^verbatim>\<open>None\<close> carries the
  empty list, the loop exits after that GET and its sleep, and \<^verbatim>\<open>text[0]\<close> raises the
  index error: the call neither returns a value nor polls again. A call that returns
  normally has therefore read a completion with at least one element.
\<close>

theorem empty_completion:
  assumes "post_reply = Inr response_post"
    and "raise_for_status response_post = Inr ()"
    and "response_json response_post = Inr response_post_json"
    and "poll_url response_post_json = Inr url"
    and "\<forall>k<n. read_completion (gets k) = Inr PNone"
    and "read_completion (gets n) = Inr (PList [])"
  shows "call self post_reply gets prompt stop =
           Some (post_request self prompt # polls self url n @ [Get url (headers self), Sleep (1 / 2)],
                 Inl IndexError)
       \<and> (\<forall>trace v. call self post_reply gets prompt stop \<noteq> Some (trace, Inr v))"
proof -
  have "poll_loop self response_post_json gets 0 [post_request self prompt] =
          Some ([post_request self prompt] @ polls self url n @ [Get url (headers self), Sleep (1 / 2)],
                Inr (PList []))"
    using assms(4,5,6) by (rule poll_loop_completes) simp
  then show ?thesis using assms(1,2,3) by (simp add: call_def)
qed

text \<open>C10 on a server whose first reply carries \<^verbatim>\<open>"completion": []\<close>.\<close>

theorem empty_completion_witness:
  "call example_config (Inr (data_response 200 (PDict [(''responseUrl'', PStr ''https://poll'')])))
     (\<lambda>n. Inr (data_response 200 (PDict [(''completion'', PList [])]))) ''Hi'' (Some [''world'']) =
   Some ([post_request example_config ''Hi'',
          Get (PStr ''https://poll'') (headers example_config), Sleep (1 / 2)], Inl IndexError)"
proof -
  let ?post = "data_response 200 (PDict [(''responseUrl'', PStr ''https://poll'')])"
  let ?gets = "\<lambda>n::nat. Inr (data_response 200 (PDict [(''completion'', PList [])])) :: reply"
  have 1: "raise_for_status ?post = Inr ()"
    by (simp add: raise_for_status_def data_response_def)
  have 2: "response_json ?post = Inr (PDict [(''data'', PDict [(''responseUrl'', PStr ''https://poll'')])])"
    by (simp add: response_json_def data_response_def)
  have 3: "poll_url (PDict [(''data'', PDict [(''responseUrl'', PStr ''https://poll'')])]) = Inr (PStr ''https://poll'')"
    by (simp add: poll_url_def)
  have 4: "\<forall>k<0. read_completion (?gets k) = Inr PNone" by simp
  have 5: "read_completion (?gets 0) = Inr (PList [])"
    by (simp add: read_completion_def raise_for_status_def response_json_def data_response_def)
  from empty_completion [OF refl 1 2 3 4 5, of example_config "''Hi''" "Some [''world'']"]
  show ?thesis by (simp add: polls_def)
qed

section \<open>Claims about the construction\<close>

text \<open>
  Claim C3, as the code has it. \<^verbatim>\<open>build_extra\<close> compares with the keys of
  \<^verbatim>\<open>model_kwargs\<close> only the constructor fields that are not declared fields. When such
  an undeclared field is also a key of the \<^verbatim>\<open>model_kwargs\<close> dictionary, construction
  fails with the error that names the first one, supplied twice. Every object that is
  constructed comes from an input without such a collision, and its \<^verbatim>\<open>model_kwargs\<close>
  holds the undeclared fields with their values next to the entries it was given.
\<close>

theorem undeclared_collision_rejected:
  assumes "distinct (map fst vals)" and "initial_extra vals = PDict kw"
  shows "((\<exists>f\<in>fst ` set vals. f \<notin> all_required_field_names others \<and> f \<in> fst ` set kw) \<longrightarrow>
            (\<exists>g logged. g \<in> fst ` set vals \<and> g \<notin> all_required_field_names others \<and> g \<in> fst ` set kw
               \<and> construct environ others vals =
                   (logged, Inl (ValueError (''Found '' @ g @ '' supplied twice.'')))))
       \<and> (\<forall>logged cfg. construct environ others vals = (logged, Inr cfg) \<longrightarrow>
            (\<forall>f\<in>fst ` set vals. f \<notin> all_required_field_names others \<longrightarrow> f \<notin> fst ` set kw)
          \<and> (\<forall>k. map_of (model_kwargs cfg) k =
                 (if k \<in> fst ` set vals \<and> k \<notin> all_required_field_names others
                  then map_of vals k else map_of kw k)))"
proof (intro conjI impI allI)
  assume "\<exists>f\<in>fst ` set vals. f \<notin> all_required_field_names others \<and> f \<in> fst ` set kw"
  then have "find (\<lambda>k. k \<notin> all_required_field_names others \<and> k \<in> fst ` set kw) (map fst vals) \<noteq> None"
    by (auto simp: find_None_iff)
  then obtain g where g: "find (\<lambda>k. k \<notin> all_required_field_names others \<and> k \<in> fst ` set kw) (map fst vals) = Some g"
    by blast
  then have "g \<in> set (map fst vals) \<and> g \<notin> all_required_field_names others \<and> g \<in> fst ` set kw"
    by (auto simp: find_Some_iff)
  with construct_collision [OF assms g, of environ]
  show "\<exists>g logged. g \<in> fst ` set vals \<and> g \<notin> all_required_field_names others \<and> g \<in> fst ` set kw
               \<and> construct environ others vals =
                   (logged, Inl (ValueError (''Found '' @ g @ '' supplied twice.'')))"
    by auto
next
  fix logged cfg
  assume c: "construct environ others vals = (logged, Inr cfg)"
  from construct_moves [OF c assms]
  show "\<forall>f\<in>fst ` set vals. f \<notin> all_required_field_names others \<longrightarrow> f \<notin> fst ` set kw"
    by blast
next
  fix logged cfg k
  assume c: "construct environ others vals = (logged, Inr cfg)"
  from construct_moves [OF c assms]
  show "map_of (model_kwargs cfg) k =
                 (if k \<in> fst ` set vals \<and> k \<notin> all_required_field_names others
                  then map_of vals k else map_of kw k)"
    by blast
qed

text \<open>C3 on a colliding input and on an input whose undeclared field is moved.\<close>

theorem undeclared_collision_rejected_witness:
  "(\<exists>g logged. g \<in> {''model_id'', ''foo'', ''model_kwargs''} \<and> g \<in> {''foo''}
      \<and> construct Map.empty {}
           [(''model_id'', PStr ''u''), (''foo'', PInt 2), (''model_kwargs'', PDict [(''foo'', PInt 1)])] =
         (logged, Inl (ValueError (''Found '' @ g @ '' supplied twice.''))))
 \<and> (\<exists>logged cfg.
       construct [''STOCHASTICAI_API_KEY'' \<mapsto> ''secret''] {}
         [(''model_id'', PStr ''u''), (''temperature'', PFloat (1 / 2)),
          (''model_kwargs'', PDict [(''top_k'', PInt 5)])] = (logged, Inr cfg)
     \<and> map_of (model_kwargs cfg) ''temperature'' = Some (PFloat (1 / 2))
     \<and> map_of (model_kwargs cfg) ''top_k'' = Some (PInt 5))"
proof -
  let ?v1 = "[(''model_id'', PStr ''u''), (''foo'', PInt 2), (''model_kwargs'', PDict [(''foo'', PInt 1)])]"
  let ?v2 = "[(''model_id'', PStr ''u''), (''temperature'', PFloat (1 / 2)),
          (''model_kwargs'', PDict [(''top_k'', PInt 5)])]"
  let ?env = "[''STOCHASTICAI_API_KEY'' \<mapsto> ''secret'']"
  have d1: "distinct (map fst ?v1)" by simp
  have e1: "initial_extra ?v1 = PDict [(''foo'', PInt 1)]" by (simp add: initial_extra_def)
  have c1: "\<exists>f\<in>fst ` set ?v1. f \<notin> all_required_field_names {} \<and> f \<in> fst ` set [(''foo'', PInt 1)]"
    by (simp add: all_required_field_names_def own_fields_def)
  have d2: "distinct (map fst ?v2)" by simp
  have e2: "initial_extra ?v2 = PDict [(''top_k'', PInt 5)]" by (simp add: initial_extra_def)
  have c2: "construct ?env {} ?v2 =
      ([warning ''temperature''],
       Inr \<lparr>model_id = ''u'', model_kwargs = [(''top_k'', PInt 5), (''temperature'', PFloat (1 / 2))],
            stochasticai_api_key = Some ''secret''\<rparr>)"
    by (simp add: construct_def build_extra_def initial_extra_def all_required_field_names_def
        own_fields_def validate_fields_def validate_environment_def get_from_dict_or_env_def
        dict_pop_def)
  have t2: "''temperature'' \<in> fst ` set ?v2 \<and> ''temperature'' \<notin> all_required_field_names {}"
    and k2: "\<not> (''top_k'' \<in> fst ` set ?v2 \<and> ''top_k'' \<notin> all_required_field_names {})"
    by (simp_all add: all_required_field_names_def own_fields_def)
  from undeclared_collision_rejected [OF d1 e1, of "{}" Map.empty] c1
  have A: "\<exists>g logged. g \<in> fst ` set ?v1 \<and> g \<notin> all_required_field_names {} \<and> g \<in> fst ` set [(''foo'', PInt 1)]
               \<and> construct Map.empty {} ?v1 =
                   (logged, Inl (ValueError (''Found '' @ g @ '' supplied twice.'')))"
    by blast
  from undeclared_collision_rejected [OF d2 e2, of "{}" ?env] c2
  have B: "\<forall>k. map_of (model_kwargs \<lparr>model_id = ''u'', model_kwargs = [(''top_k'', PInt 5), (''temperature'', PFloat (1 / 2))],
            stochasticai_api_key = Some ''secret''\<rparr>) k =
                 (if k \<in> fst ` set ?v2 \<and> k \<notin> all_required_field_names {}
                  then map_of ?v2 k else map_of [(''top_k'', PInt 5)] k)"
    by blast
  from A have A': "\<exists>g logged. g \<in> {''model_id'', ''foo'', ''model_kwargs''} \<and> g \<in> {''foo''}
      \<and> construct Map.empty {} ?v1 = (logged, Inl (ValueError (''Found '' @ g @ '' supplied twice.'')))"
    by auto
  from B c2 have B': "\<exists>logged cfg. construct ?env {} ?v2 = (logged, Inr cfg)
     \<and> map_of (model_kwargs cfg) ''temperature'' = Some (PFloat (1 / 2))
     \<and> map_of (model_kwargs cfg) ''top_k'' = Some (PInt 5)"
    by simp
  from A' B' show ?thesis by blast
qed

text \<open>
  C3 as stated (no name is both an explicit, declared field and a key of
  \<^verbatim>\<open>model_kwargs\<close>) fails for a declared name: \<^verbatim>\<open>model_id\<close> given as a field and as a
  key of \<^verbatim>\<open>model_kwargs\<close> constructs an object that holds both.
\<close>

theorem declared_name_collision_counterexample:
  "construct Map.empty {}
     [(''model_id'', PStr ''https://api.stochastic.ai/v1/modelApi/submit/flan-t5''),
      (''model_kwargs'', PDict [(''model_id'', PInt 1)]),
      (''stochasticai_api_key'', PStr ''secret'')] =
   ([], Inr \<lparr>model_id = ''https://api.stochastic.ai/v1/modelApi/submit/flan-t5'',
             model_kwargs = [(''model_id'', PInt 1)],
             stochasticai_api_key = Some ''secret''\<rparr>)"
  by (simp add: construct_def build_extra_def initial_extra_def all_required_field_names_def
        own_fields_def validate_fields_def validate_environment_def get_from_dict_or_env_def)

text \<open>
  Claim C4. When an undeclared constructor field is also a key of the \<^verbatim>\<open>model_kwargs\<close>
  dictionary, construction raises the value error \<^verbatim>\<open>Found <field> supplied twice.\<close>
  and returns no object; the field named is the first such field in the order of the
  arguments.
\<close>

theorem supplied_twice:
  assumes "distinct (map fst vals)"
    and "map_of vals ''model_kwargs'' = Some (PDict kw)"
    and "field_name \<in> fst ` set vals"
    and "field_name \<notin> all_required_field_names others"
    and "field_name \<in> fst ` set kw"
  shows "\<exists>g logged.
           construct environ others vals =
             (logged, Inl (ValueError (''Found '' @ g @ '' supplied twice.'')))
         \<and> find (\<lambda>k. k \<notin> all_required_field_names others \<and> k \<in> fst ` set kw) (map fst vals) = Some g"
proof -
  have ie: "initial_extra vals = PDict kw" using assms(2) by (simp add: initial_extra_def)
  have "find (\<lambda>k. k \<notin> all_required_field_names others \<and> k \<in> fst ` set kw) (map fst vals) \<noteq> None"
    using assms(3,4,5) by (auto simp: find_None_iff)
  then obtain g where g: "find (\<lambda>k. k \<notin> all_required_field_names others \<and> k \<in> fst ` set kw) (map fst vals) = Some g"
    by blast
  with construct_collision [OF assms(1) ie g, of environ] show ?thesis by blast
qed

text \<open>The spec's example of C4: the field \<^verbatim>\<open>foo\<close> and \<^verbatim>\<open>model_kwargs={"foo": 1}\<close>.\<close>

theorem supplied_twice_witness:
  "\<exists>logged. construct Map.empty {}
      [(''model_id'', PStr ''u''), (''foo'', PInt 2), (''model_kwargs'', PDict [(''foo'', PInt 1)])] =
     (logged, Inl (ValueError ''Found foo supplied twice.''))"
proof -
  let ?v1 = "[(''model_id'', PStr ''u''), (''foo'', PInt 2), (''model_kwargs'', PDict [(''foo'', PInt 1)])]"
  have 1: "distinct (map fst ?v1)" by simp
  have 2: "map_of ?v1 ''model_kwargs'' = Some (PDict [(''foo'', PInt 1)])" by simp
  have 3: "''foo'' \<in> fst ` set ?v1" by simp
  have 4: "''foo'' \<notin> all_required_field_names {}"
    by (simp add: all_required_field_names_def own_fields_def)
  have 5: "''foo'' \<in> fst ` set [(''foo'', PInt 1)]" by simp
  have 6: "find (\<lambda>k. k \<notin> all_required_field_names {} \<and> k \<in> fst ` set [(''foo'', PInt 1)]) (map fst ?v1) = Some ''foo''"
    by (simp add: all_required_field_names_def own_fields_def)
  from supplied_twice [OF 1 2 3 4 5, of Map.empty] 6 show ?thesis by auto
qed

text \<open>
  Claim C5. When the API key is not supplied (absent or \<^verbatim>\<open>None\<close>) and the variable
  \<^verbatim>\<open>STOCHASTICAI_API_KEY\<close> is unset, construction fails, and when the earlier steps pass
  it fails with the configuration error of the missing key. Construction is a function
  of the arguments and the environment that returns warnings and a result only: no
  request is made before an object exists. A key supplied as a string is the key of
  the constructed object, whatever the environment holds.
\<close>

theorem api_key_resolution:
  "(map_of vals ''stochasticai_api_key'' \<in> {None, Some PNone} \<and> environ ''STOCHASTICAI_API_KEY'' = None \<longrightarrow>
      (\<exists>logged e. construct environ others vals = (logged, Inl e))
    \<and> (\<forall>logged vals' validated.
          build_extra others vals = (logged, Inr vals') \<and> validate_fields vals' = Inr validated \<longrightarrow>
          construct environ others vals = (logged, Inl (ConfigurationError ''stochasticai_api_key''))))
 \<and> (\<forall>k logged cfg.
      map_of vals ''stochasticai_api_key'' = Some (PStr k) \<and> construct environ others vals = (logged, Inr cfg) \<longrightarrow>
      stochasticai_api_key cfg = Some k)"
proof (intro conjI impI allI)
  fix logged vals' validated
  assume h: "map_of vals ''stochasticai_api_key'' \<in> {None, Some PNone} \<and> environ ''STOCHASTICAI_API_KEY'' = None"
    and s: "build_extra others vals = (logged, Inr vals') \<and> validate_fields vals' = Inr validated"
  from s have be: "build_extra others vals = (logged, Inr vals')"
    and vf: "validate_fields vals' = Inr validated" by simp_all
  have "map_of vals' ''stochasticai_api_key'' = map_of vals ''stochasticai_api_key''"
    using be by (rule build_extra_keeps_fields) (simp_all add: own_field_names)
  with validate_fields_success [OF vf] h have "stochasticai_api_key validated = None"
    by (auto split: option.splits)
  with h have "validate_environment environ validated = Inl (ConfigurationError ''stochasticai_api_key'')"
    by (simp add: validate_environment_def get_from_dict_or_env_def)
  with be vf show "construct environ others vals = (logged, Inl (ConfigurationError ''stochasticai_api_key''))"
    by (simp add: construct_def)
next
  assume h: "map_of vals ''stochasticai_api_key'' \<in> {None, Some PNone} \<and> environ ''STOCHASTICAI_API_KEY'' = None"
  obtain logged r where be: "build_extra others vals = (logged, r)" by (cases "build_extra others vals")
  show "\<exists>logged e. construct environ others vals = (logged, Inl e)"
  proof (cases r)
    case (Inl e)
    with be show ?thesis by (simp add: construct_def)
  next
    case (Inr vals')
    show ?thesis
    proof (cases "validate_fields vals'")
      case (Inl e)
      with be Inr show ?thesis by (simp add: construct_def)
    next
      case vf: (Inr validated)
      have "map_of vals' ''stochasticai_api_key'' = map_of vals ''stochasticai_api_key''"
        using be [unfolded Inr] by (rule build_extra_keeps_fields) (simp_all add: own_field_names)
      with validate_fields_success [OF vf] h have "stochasticai_api_key validated = None"
        by (auto split: option.splits)
      with h have "validate_environment environ validated = Inl (ConfigurationError ''stochasticai_api_key'')"
        by (simp add: validate_environment_def get_from_dict_or_env_def)
      with be Inr vf show ?thesis by (simp add: construct_def)
    qed
  qed
next
  fix k logged cfg
  assume h: "map_of vals ''stochasticai_api_key'' = Some (PStr k) \<and> construct environ others vals = (logged, Inr cfg)"
  then have c: "construct environ others vals = (logged, Inr cfg)" by simp
  then obtain vals' validated where be: "build_extra others vals = (logged, Inr vals')"
    and vf: "validate_fields vals' = Inr validated"
    and ve: "validate_environment environ validated = Inr cfg"
    by (auto simp: construct_def split: prod.splits sum.splits)
  have "map_of vals' ''stochasticai_api_key'' = map_of vals ''stochasticai_api_key''"
    using be by (rule build_extra_keeps_fields) (simp_all add: own_field_names)
  with validate_fields_success [OF vf] h have "stochasticai_api_key validated = Some k"
    by (auto split: option.splits)
  with validate_environment_success [OF ve] show "stochasticai_api_key cfg = Some k" by simp
qed

text \<open>C5 with neither key nor variable, and with both.\<close>

theorem api_key_resolution_witness:
  "construct Map.empty {} [(''model_id'', PStr ''u'')] =
     ([], Inl (ConfigurationError ''stochasticai_api_key''))
 \<and> (\<exists>logged cfg.
       construct [''STOCHASTICAI_API_KEY'' \<mapsto> ''from the environment''] {}
         [(''model_id'', PStr ''u''), (''stochasticai_api_key'', PStr ''explicit'')] = (logged, Inr cfg)
     \<and> stochasticai_api_key cfg = Some ''explicit'')"
proof -
  let ?v1 = "[(''model_id'', PStr ''u'')]"
  let ?v2 = "[(''model_id'', PStr ''u''), (''stochasticai_api_key'', PStr ''explicit'')]"
  let ?env = "[''STOCHASTICAI_API_KEY'' \<mapsto> ''from the environment'']"
  have a: "map_of ?v1 ''stochasticai_api_key'' \<in> {None, Some PNone} \<and> Map.empty ''STOCHASTICAI_API_KEY'' = (None :: string option)"
    by simp
  have b: "build_extra {} ?v1 = ([], Inr [(''model_id'', PStr ''u''), (''model_kwargs'', PDict [])])
      \<and> validate_fields [(''model_id'', PStr ''u''), (''model_kwargs'', PDict [])] =
          Inr \<lparr>model_id = ''u'', model_kwargs = [], stochasticai_api_key = None\<rparr>"
    by (simp add: build_extra_def initial_extra_def all_required_field_names_def
        own_fields_def validate_fields_def)
  have c: "\<exists>logged cfg. construct ?env {} ?v2 = (logged, Inr cfg)"
    by (simp add: construct_def build_extra_def initial_extra_def all_required_field_names_def
        own_fields_def validate_fields_def validate_environment_def get_from_dict_or_env_def)
  have d: "map_of ?v2 ''stochasticai_api_key'' = Some (PStr ''explicit'')" by simp
  from api_key_resolution [of ?v1 Map.empty "{}"] a b
  have A: "construct Map.empty {} ?v1 = ([], Inl (ConfigurationError ''stochasticai_api_key''))"
    by blast
  from c obtain logged cfg where c': "construct ?env {} ?v2 = (logged, Inr cfg)" by blast
  from api_key_resolution [of ?v2 ?env "{}"] d c'
  have "stochasticai_api_key cfg = Some ''explicit''" by blast
  with A c' show ?thesis by blast
qed

text \<open>
  Claim C8. When no undeclared constructor field is a key of the \<^verbatim>\<open>model_kwargs\<close>
  dictionary, \<^verbatim>\<open>build_extra\<close> succeeds, and for an undeclared field with value \<open>v\<close>
  it logs the warning for that field and stores \<open>v\<close> under the field's name in
  \<^verbatim>\<open>model_kwargs\<close>. Every object constructed from these arguments has that
  \<^verbatim>\<open>model_kwargs\<close>, and every call on it sends the POST with it as \<^verbatim>\<open>params\<close> first,
  whether the call returns or not: the trace after any number of polls starts with that
  POST, the call returns a trace and a result exactly when some number of polls ends
  with them, and it never returns exactly when no number of polls ends the loop.
\<close>

theorem unrecognized_field_forwarded:
  assumes "distinct (map fst vals)"
    and "initial_extra vals = PDict kw"
    and "\<forall>k\<in>fst ` set vals. k \<notin> all_required_field_names others \<longrightarrow> k \<notin> fst ` set kw"
    and "map_of vals field_name = Some v"
    and "field_name \<notin> all_required_field_names others"
  shows "\<exists>logged vals' kw'.
           build_extra others vals = (logged, Inr vals')
         \<and> warning field_name \<in> set logged
         \<and> map_of vals' ''model_kwargs'' = Some (PDict kw')
         \<and> map_of kw' field_name = Some v
         \<and> (\<forall>environ logged' cfg prompt.
               construct environ others vals = (logged', Inr cfg) \<longrightarrow>
                 logged' = logged \<and> model_kwargs cfg = kw'
               \<and> post_request cfg prompt =
                   Post (model_id cfg)
                     (PDict [(''prompt'', PStr prompt), (''params'', PDict kw')]) (headers cfg)
               \<and> (\<forall>post_reply gets stop.
                     (\<forall>fuel. \<exists>rest. fst (call_upto fuel cfg post_reply gets prompt stop) =
                                       post_request cfg prompt # rest)
                   \<and> (\<forall>trace result.
                         (call cfg post_reply gets prompt stop = Some (trace, result)) =
                         (\<exists>fuel. call_upto fuel cfg post_reply gets prompt stop = (trace, Some result)))
                   \<and> ((call cfg post_reply gets prompt stop = None) =
                        (\<forall>fuel. snd (call_upto fuel cfg post_reply gets prompt stop) = None))
                   \<and> (\<forall>trace result.
                         call cfg post_reply gets prompt stop = Some (trace, result) \<longrightarrow>
                         (\<exists>rest. trace = post_request cfg prompt # rest))))"
proof -
  let ?F = "all_required_field_names others"
  let ?logged = "map warning (filter (\<lambda>k. k \<notin> ?F) (map fst vals))"
  have "set (map fst vals) \<subseteq> fst ` set vals" by simp
  moreover have "\<forall>k\<in>set (map fst vals). k \<notin> ?F \<longrightarrow> k \<notin> fst ` set kw" using assms(3) by simp
  ultimately obtain vals1 kw'
    where loop: "build_extra_loop ?F (map fst vals) vals (PDict kw) [] = ([] @ ?logged, Inr (vals1, PDict kw'))"
    using loop_no_collision [OF assms(1), of vals ?F kw "[]"] by blast
  then have loop': "build_extra_loop ?F (map fst vals) vals (PDict kw) [] = (?logged, Inr (vals1, PDict kw'))"
    by simp
  have inv: "field_name \<in> fst ` set vals" using assms(4) by (metis map_of_SomeD fst_conv image_eqI)
  from loop_success [OF loop' assms(1)]
  have "\<forall>k. map_of kw' k = (if k \<in> set (map fst vals) \<and> k \<notin> ?F then map_of vals k else map_of kw k)"
    by auto
  with inv assms(4,5) have 1: "map_of kw' field_name = Some v" by simp
  have 2: "warning field_name \<in> set ?logged" using inv assms(5) by auto
  have be: "build_extra others vals = (?logged, Inr (AList.update ''model_kwargs'' (PDict kw') vals1))"
    using loop' assms(2) by (simp add: build_extra_def)
  have 3: "map_of (AList.update ''model_kwargs'' (PDict kw') vals1) ''model_kwargs'' = Some (PDict kw')"
    by (simp add: update_conv')
  have 4: "logged' = ?logged \<and> model_kwargs cfg = kw'
               \<and> post_request cfg prompt =
                   Post (model_id cfg)
                     (PDict [(''prompt'', PStr prompt), (''params'', PDict kw')]) (headers cfg)
               \<and> (\<forall>post_reply gets stop.
                     (\<forall>fuel. \<exists>rest. fst (call_upto fuel cfg post_reply gets prompt stop) =
                                       post_request cfg prompt # rest)
                   \<and> (\<forall>trace result.
                         (call cfg post_reply gets prompt stop = Some (trace, result)) =
                         (\<exists>fuel. call_upto fuel cfg post_reply gets prompt stop = (trace, Some result)))
                   \<and> ((call cfg post_reply gets prompt stop = None) =
                        (\<forall>fuel. snd (call_upto fuel cfg post_reply gets prompt stop) = None))
                   \<and> (\<forall>trace result.
                         call cfg post_reply gets prompt stop = Some (trace, result) \<longrightarrow>
                         (\<exists>rest. trace = post_request cfg prompt # rest)))"
    if c: "construct environ others vals = (logged', Inr cfg)" for environ logged' cfg prompt
  proof -
    from c be obtain validated where l: "logged' = ?logged"
      and vf: "validate_fields (AList.update ''model_kwargs'' (PDict kw') vals1) = Inr validated"
      and ve: "validate_environment environ validated = Inr cfg"
      by (auto simp: construct_def split: sum.splits)
    from validate_fields_success [OF vf] 3 have "model_kwargs validated = kw'" by simp
    with validate_environment_success [OF ve] have mk: "model_kwargs cfg = kw'" by simp
    then have pr: "post_request cfg prompt =
                   Post (model_id cfg)
                     (PDict [(''prompt'', PStr prompt), (''params'', PDict kw')]) (headers cfg)"
      by (auto simp: post_request_def)
    have calls: "(\<forall>fuel. \<exists>rest. fst (call_upto fuel cfg post_reply gets prompt stop) =
                                       post_request cfg prompt # rest)
                   \<and> (\<forall>trace result.
                         (call cfg post_reply gets prompt stop = Some (trace, result)) =
                         (\<exists>fuel. call_upto fuel cfg post_reply gets prompt stop = (trace, Some result)))
                   \<and> ((call cfg post_reply gets prompt stop = None) =
                        (\<forall>fuel. snd (call_upto fuel cfg post_reply gets prompt stop) = None))
                   \<and> (\<forall>trace result.
                         call cfg post_reply gets prompt stop = Some (trace, result) \<longrightarrow>
                         (\<exists>rest. trace = post_request cfg prompt # rest))" for post_reply gets stop
    proof (intro conjI allI impI)
      fix fuel
      show "\<exists>rest. fst (call_upto fuel cfg post_reply gets prompt stop) = post_request cfg prompt # rest"
        by (rule call_upto_starts)
    next
      fix trace result
      show "(call cfg post_reply gets prompt stop = Some (trace, result)) =
            (\<exists>fuel. call_upto fuel cfg post_reply gets prompt stop = (trace, Some result))"
        by (rule call_upto_agrees)
    next
      show "(call cfg post_reply gets prompt stop = None) =
            (\<forall>fuel. snd (call_upto fuel cfg post_reply gets prompt stop) = None)"
        by (rule call_upto_diverges)
    next
      fix trace result
      assume "call cfg post_reply gets prompt stop = Some (trace, result)"
      then show "\<exists>rest. trace = post_request cfg prompt # rest"
        by (rule call_trace_starts)
    qed
    from l mk pr calls show ?thesis by blast
  qed
  from be 1 2 3 4 show ?thesis by blast
qed

text \<open>The spec's example of C8, \<^verbatim>\<open>temperature=0.5\<close>: a call that returns after one
  poll, and a call on a server that never completes.\<close>

theorem unrecognized_field_forwarded_witness:
  "\<exists>logged cfg.
      construct [''STOCHASTICAI_API_KEY'' \<mapsto> ''secret''] {}
        [(''model_id'', PStr ''u''), (''temperature'', PFloat (1 / 2))] = (logged, Inr cfg)
    \<and> warning ''temperature'' \<in> set logged
    \<and> post_request cfg ''Hi'' =
        Post ''u'' (PDict [(''prompt'', PStr ''Hi''),
                          (''params'', PDict [(''temperature'', PFloat (1 / 2))])]) (headers cfg)
    \<and> call cfg (Inr (data_response 200 (PDict [(''responseUrl'', PStr ''https://poll'')])))
        (\<lambda>n. Inr (data_response 200 (PDict [(''completion'', PList [PStr ''Hello world''])])))
        ''Hi'' None =
       Some ([Post ''u'' (PDict [(''prompt'', PStr ''Hi''),
                                (''params'', PDict [(''temperature'', PFloat (1 / 2))])]) (headers cfg),
              Get (PStr ''https://poll'') (headers cfg), Sleep (1 / 2)],
             Inr (PStr ''Hello world''))
    \<and> call cfg (Inr (data_response 200 (PDict [(''responseUrl'', PStr ''https://poll'')])))
        (\<lambda>n. Inr (data_response 200 (PDict [(''completion'', PNone)]))) ''Hi'' None = None
    \<and> fst (call_upto 1 cfg (Inr (data_response 200 (PDict [(''responseUrl'', PStr ''https://poll'')])))
        (\<lambda>n. Inr (data_response 200 (PDict [(''completion'', PNone)]))) ''Hi'' None) =
       [Post ''u'' (PDict [(''prompt'', PStr ''Hi''),
                          (''params'', PDict [(''temperature'', PFloat (1 / 2))])]) (headers cfg),
        Get (PStr ''https://poll'') (headers cfg), Sleep (1 / 2)]"
proof -
  let ?v = "[(''model_id'', PStr ''u''), (''temperature'', PFloat (1 / 2))]"
  let ?env = "[''STOCHASTICAI_API_KEY'' \<mapsto> ''secret'']"
  let ?cfg = "\<lparr>model_id = ''u'', model_kwargs = [(''temperature'', PFloat (1 / 2))],
              stochasticai_api_key = Some ''secret''\<rparr>"
  let ?post = "Inr (data_response 200 (PDict [(''responseUrl'', PStr ''https://poll'')])) :: reply"
  let ?done = "\<lambda>n::nat. Inr (data_response 200 (PDict [(''completion'', PList [PStr ''Hello world''])])) :: reply"
  let ?pend = "\<lambda>n::nat. Inr (data_response 200 (PDict [(''completion'', PNone)])) :: reply"
  let ?P = "Post ''u'' (PDict [(''prompt'', PStr ''Hi''),
                          (''params'', PDict [(''temperature'', PFloat (1 / 2))])]) (headers ?cfg)"
  have c: "construct ?env {} ?v = ([warning ''temperature''], Inr ?cfg)"
    by (simp add: construct_def build_extra_def initial_extra_def all_required_field_names_def
        own_fields_def validate_fields_def validate_environment_def get_from_dict_or_env_def
        dict_pop_def)
  have 1: "distinct (map fst ?v)" by simp
  have 2: "initial_extra ?v = PDict []" by (simp add: initial_extra_def)
  have 3: "\<forall>k\<in>fst ` set ?v. k \<notin> all_required_field_names {} \<longrightarrow> k \<notin> fst ` set []" by simp
  have 4: "map_of ?v ''temperature'' = Some (PFloat (1 / 2))" by simp
  have 5: "''temperature'' \<notin> all_required_field_names {}"
    by (simp add: all_required_field_names_def own_fields_def)
  from unrecognized_field_forwarded [OF 1 2 3 4 5] obtain logged kw'
    where w: "warning ''temperature'' \<in> set logged"
      and a: "\<forall>environ logged' cfg prompt.
               construct environ {} ?v = (logged', Inr cfg) \<longrightarrow>
                 logged' = logged \<and> model_kwargs cfg = kw'
               \<and> post_request cfg prompt =
                   Post (model_id cfg)
                     (PDict [(''prompt'', PStr prompt), (''params'', PDict kw')]) (headers cfg)
               \<and> (\<forall>post_reply gets stop.
                     (\<forall>fuel. \<exists>rest. fst (call_upto fuel cfg post_reply gets prompt stop) =
                                       post_request cfg prompt # rest)
                   \<and> (\<forall>trace result.
                         (call cfg post_reply gets prompt stop = Some (trace, result)) =
                         (\<exists>fuel. call_upto fuel cfg post_reply gets prompt stop = (trace, Some result)))
                   \<and> ((call cfg post_reply gets prompt stop = None) =
                        (\<forall>fuel. snd (call_upto fuel cfg post_reply gets prompt stop) = None))
                   \<and> (\<forall>trace result.
                         call cfg post_reply gets prompt stop = Some (trace, result) \<longrightarrow>
                         (\<exists>rest. trace = post_request cfg prompt # rest)))"
    by blast
  from a c have l: "[warning ''temperature''] = logged"
    and pr: "post_request ?cfg ''Hi'' =
          Post (model_id ?cfg) (PDict [(''prompt'', PStr ''Hi''), (''params'', PDict kw')]) (headers ?cfg)"
    and mk: "model_kwargs ?cfg = kw'"
    and agree: "\<forall>trace result.
        (call ?cfg ?post ?done ''Hi'' None = Some (trace, result)) =
        (\<exists>fuel. call_upto fuel ?cfg ?post ?done ''Hi'' None = (trace, Some result))"
    and div: "(call ?cfg ?post ?pend ''Hi'' None = None) =
        (\<forall>fuel. snd (call_upto fuel ?cfg ?post ?pend ''Hi'' None) = None)"
    by blast+
  have pq: "post_request ?cfg ''Hi'' = ?P" using pr mk by simp
  have "call_upto 1 ?cfg ?post ?done ''Hi'' None =
      ([?P, Get (PStr ''https://poll'') (headers ?cfg), Sleep (1 / 2)], Some (Inr (PStr ''Hello world'')))"
    by (simp add: call_upto_def poll_once_def read_completion_def poll_url_def
        data_response_def raise_for_status_def response_json_def post_request_def)
  with agree have r1: "call ?cfg ?post ?done ''Hi'' None =
      Some ([?P, Get (PStr ''https://poll'') (headers ?cfg), Sleep (1 / 2)], Inr (PStr ''Hello world''))"
    by blast
  have url: "poll_url (PDict [(''data'', PDict [(''responseUrl'', PStr ''https://poll'')])]) = Inr (PStr ''https://poll'')"
    by (simp add: poll_url_def)
  have pend: "\<forall>k. read_completion (?pend k) = Inr PNone"
    by (simp add: read_completion_def raise_for_status_def response_json_def data_response_def)
  have pu: "poll_upto fuel ?cfg (PDict [(''data'', PDict [(''responseUrl'', PStr ''https://poll'')])]) ?pend 0
               [post_request ?cfg ''Hi''] =
            ([post_request ?cfg ''Hi''] @ polls ?cfg (PStr ''https://poll'') fuel, None)" for fuel
    using url pend by (rule poll_upto_pending)
  have cu: "call_upto fuel ?cfg ?post ?pend ''Hi'' None =
            ([post_request ?cfg ''Hi''] @ polls ?cfg (PStr ''https://poll'') fuel, None)" for fuel
    using pu [of fuel]
    by (simp add: call_upto_def data_response_def raise_for_status_def response_json_def)
  from cu div have r2: "call ?cfg ?post ?pend ''Hi'' None = None" by simp
  from cu [of 1] pq have r3: "fst (call_upto 1 ?cfg ?post ?pend ''Hi'' None) =
      [?P, Get (PStr ''https://poll'') (headers ?cfg), Sleep (1 / 2)]"
    by (simp add: polls_def)
  from c w l pq r1 r2 r3 show ?thesis
    by (intro exI [of _ "[warning ''temperature'']"] exI [of _ ?cfg]) simp
qed

end
